theory Spec2Isabelle
  imports Main "HOL-Library.Word"
begin

unbundle bit_operations_syntax

section \<open>Common types of the codec\<close>

type_synonym byte = "8 word"

text \<open>
  The header and ACK decoders only read from their \<open>folly::io::Cursor\<close>, and reads run
  across the buffers of a chain, so for them a cursor is the list of the bytes not yet
  read: \<open>canAdvance n\<close> is \<open>n \<le> length c\<close>, \<open>skip n\<close> is \<open>drop n c\<close>. The frame loop,
  whose padding decoder looks at the current buffer with \<open>peekBytes\<close>, works on the chain
  of buffers itself (see the section on padding frames).
\<close>

type_synonym Cursor = "byte list"

datatype TransportErrorCode = FRAME_ENCODING_ERROR | PROTOCOL_VIOLATION | INTERNAL_ERROR

datatype HeaderForm = Long | Short

datatype ProtectionType = KeyPhaseZero | KeyPhaseOne

type_synonym ConnectionId = "byte list"

section \<open>Header codec (Decode.cpp)\<close>

text \<open>
  Modelled from the spec: the bit masks of the initial byte are declared in a header that
  is not part of the sources at hand. The specification names the header-form bit (the top
  bit, set for a long header), the fixed bit (bit 6), the reserved bits of a short header
  (bits 4-5) and the key-phase bit (bit 2), and bounds a connection id by 20 bytes.
\<close>

definition kHeaderFormMask :: byte where
  "kHeaderFormMask = 0x80"

definition ShortHeader_kFixedBitMask :: byte where
  "ShortHeader_kFixedBitMask = 0x40"

definition ShortHeader_kReservedBitsMask :: byte where
  "ShortHeader_kReservedBitsMask = 0x30"

definition ShortHeader_kKeyPhaseMask :: byte where
  "ShortHeader_kKeyPhaseMask = 0x04"

definition kMaxConnectionIdSize :: nat where
  "kMaxConnectionIdSize = 20"

text \<open>
  Modelled from the spec: \<open>getHeaderForm\<close> is defined outside the sources at hand; the
  builders set \<open>kHeaderFormMask\<close> in the initial byte of a long header only.
\<close>

definition getHeaderForm :: "byte \<Rightarrow> HeaderForm" where
  "getHeaderForm initialByte =
     (if initialByte AND kHeaderFormMask \<noteq> 0 then Long else Short)"

record ShortHeader =
  protectionType :: ProtectionType
  connectionId :: ConnectionId

definition parseShortHeaderInvariants ::
  "byte \<Rightarrow> Cursor \<Rightarrow> nat \<Rightarrow> TransportErrorCode + (ConnectionId \<times> Cursor)" where
  "parseShortHeaderInvariants initialByte cursor dstConnIdSize =
     (if getHeaderForm initialByte \<noteq> Short then Inl FRAME_ENCODING_ERROR
      else if dstConnIdSize > kMaxConnectionIdSize then Inl PROTOCOL_VIOLATION
      else if \<not> dstConnIdSize \<le> length cursor then Inl FRAME_ENCODING_ERROR
      else Inr (take dstConnIdSize cursor, drop dstConnIdSize cursor))"

definition parseShortHeader ::
  "byte \<Rightarrow> Cursor \<Rightarrow> nat \<Rightarrow> TransportErrorCode + (ShortHeader \<times> Cursor)" where
  "parseShortHeader initialByte cursor dstConnIdSize =
     (if getHeaderForm initialByte \<noteq> Short then Inl FRAME_ENCODING_ERROR
      else if initialByte AND ShortHeader_kFixedBitMask = 0 then Inl FRAME_ENCODING_ERROR
      else if initialByte AND ShortHeader_kReservedBitsMask \<noteq> 0 then Inl PROTOCOL_VIOLATION
      else (case parseShortHeaderInvariants initialByte cursor dstConnIdSize of
              Inl e \<Rightarrow> Inl FRAME_ENCODING_ERROR
            | Inr (connId, cursor') \<Rightarrow>
                Inr (\<lparr>protectionType =
                        (if initialByte AND ShortHeader_kKeyPhaseMask \<noteq> 0
                         then KeyPhaseOne else KeyPhaseZero),
                      connectionId = connId\<rparr>, cursor')))"

section \<open>Variable-length integers\<close>

text \<open>
  Modelled from the spec: \<open>decodeQuicInteger\<close> is defined in the QuicInteger unit, which
  is not part of the sources at hand. Specification 4.1: the two most-significant bits of
  the first byte encode the length (1, 2, 4 or 8 bytes), the remaining bits are the
  big-endian unsigned value; decoding fails when the buffer is shorter than indicated.
  The result is the value, the number of bytes read and the advanced cursor.
\<close>

definition beValue :: "byte list \<Rightarrow> 64 word" where
  "beValue bs = foldl (\<lambda>acc b. push_bit 8 acc OR ucast b) 0 bs"

definition decodeQuicInteger :: "Cursor \<Rightarrow> ((64 word \<times> nat) \<times> Cursor) option" where
  "decodeQuicInteger cursor =
     (case cursor of
        [] \<Rightarrow> None
      | b # rest \<Rightarrow>
          (let len = (2::nat) ^ unat (drop_bit 6 b)
           in if length cursor < len then None
              else Some ((beValue ((b AND 0x3F) # take (len - 1) rest), len),
                         drop len cursor)))"

section \<open>ACK frames (Decode.cpp)\<close>

datatype FrameType =
    PADDING | PING | ACK | ACK_ECN | RST_STREAM | STOP_SENDING | CRYPTO_FRAME | NEW_TOKEN
  | STREAM | MAX_DATA | MAX_STREAM_DATA | MAX_STREAMS_BIDI | MAX_STREAMS_UNI | DATA_BLOCKED
  | STREAM_DATA_BLOCKED | STREAMS_BLOCKED_BIDI | STREAMS_BLOCKED_UNI | NEW_CONNECTION_ID
  | RETIRE_CONNECTION_ID | PATH_CHALLENGE | PATH_RESPONSE | CONNECTION_CLOSE
  | CONNECTION_CLOSE_APP_ERR | MIN_STREAM_DATA | EXPIRED_STREAM_DATA | HANDSHAKE_DONE

text \<open>
  A thrown \<open>QuicTransportException\<close> carries its message, the transport error code and,
  optionally, the frame type. A failed \<open>DCHECK\<close> is a value of its own.
\<close>

datatype DecodeError =
    QuicTransportException (what: string) (errorCode: TransportErrorCode)
      (frameType: "FrameType option")
  | DCheckFailed

type_synonym PacketNum = "64 word"








section \<open>Padding frames and the frame loop (Decode.cpp)\<close>

text \<open>
  The payload of a packet is a chain of buffers (\<open>folly::IOBuf\<close>; \<open>BufQueue\<close> holds the
  chain), here the list of the buffers with the bytes not yet read. \<open>folly\<close> and
  \<open>BufQueue\<close> are outside the sources at hand; their operations are modelled as follows.
  Reading, \<open>canAdvance\<close>, \<open>skip\<close> and \<open>trimStart\<close> run across the buffers of the chain:
  \<open>chainLength\<close> is the number of bytes of the whole chain, \<open>trimStart n\<close> drops the
  first \<open>n\<close> of them. \<open>peekBytes\<close> alone sees the boundaries: it yields the readable
  bytes of the current buffer, moving on over exhausted buffers first, and never bytes of
  two buffers at once.
\<close>

type_synonym BufChain = "byte list list"

definition chainLength :: "BufChain \<Rightarrow> nat" where
  "chainLength queue = length (concat queue)"

fun trimStart :: "nat \<Rightarrow> BufChain \<Rightarrow> BufChain" where
  "trimStart n [] = []"
| "trimStart n (buf # bufs) =
     (if n < length buf then drop n buf # bufs else trimStart (n - length buf) bufs)"

fun peekBytes :: "BufChain \<Rightarrow> byte list" where
  "peekBytes [] = []"
| "peekBytes (buf # bufs) = (if buf = [] then peekBytes bufs else buf)"

text \<open>
  \<open>decodePaddingFrame\<close> looks at the bytes \<open>peekBytes\<close> yields. When the first is not a
  padding byte, or the bytes are not all equal to the first (\<open>memcmp\<close> of the range
  against itself shifted by one), it consumes nothing; otherwise it skips them all. The
  frame it returns is always the same, so the model returns the advanced cursor only.
  \<open>memcmp a b n\<close> holds when the C function returns 0 on the first \<open>n\<close> bytes.
\<close>

definition memcmp :: "byte list \<Rightarrow> byte list \<Rightarrow> nat \<Rightarrow> bool" where
  "memcmp a b n = (take n a = take n b)"

definition decodePaddingFrame :: "BufChain \<Rightarrow> BufChain" where
  "decodePaddingFrame cursor =
     (let paddingBytes = peekBytes cursor
      in if length paddingBytes = 0 then cursor
         else (let firstByte = hd paddingBytes
               in if firstByte \<noteq> 0 then cursor
                  else if memcmp paddingBytes (drop 1 paddingBytes) (length paddingBytes - 1)
                       then trimStart (length paddingBytes) cursor
                       else cursor))"

datatype 'f QuicFrame = PaddingFrame | OtherFrame 'f

text \<open>
  Modelled from the spec: the \<open>FrameType\<close> enumeration is declared outside the sources at
  hand. The frame type is one byte (the builders cast \<open>FrameType::PADDING\<close> to
  \<open>uint8_t\<close>), and padding is type 0 (the \<open>static_assert\<close> of \<open>decodePaddingFrame\<close>).
\<close>

definition sizeof_FrameType :: nat where
  "sizeof_FrameType = 1"

definition FrameType_PADDING :: byte where
  "FrameType_PADDING = 0"

text \<open>
  \<open>parseFrame\<close>: the frame type is read as a variable-length integer (a read, so across
  the buffers) and trimmed from the queue; a padding frame is decoded in place and the
  queue trimmed to the cursor. Every other case of the switch, with its \<open>catch\<close> and the
  unknown-frame error, is the parameter \<open>decodeOther\<close>, which returns the frame and the
  number of bytes it consumed.
\<close>

definition parseFrame ::
  "(byte \<Rightarrow> BufChain \<Rightarrow> DecodeError + ('f \<times> nat)) \<Rightarrow> BufChain
     \<Rightarrow> DecodeError + ('f QuicFrame \<times> BufChain)" where
  "parseFrame decodeOther queue =
     (if \<not> sizeof_FrameType \<le> chainLength queue
      then Inl (QuicTransportException ''Quic frame parsing: cursor cannot advance''
                  FRAME_ENCODING_ERROR None)
      else (case decodeQuicInteger (concat queue) of
              None \<Rightarrow> Inl (QuicTransportException ''Invalid frame-type field''
                              FRAME_ENCODING_ERROR None)
            | Some ((initialByte, n), _) \<Rightarrow>
                (let cursor = trimStart n queue;
                     frameType = (ucast initialByte :: byte)
                 in if frameType = FrameType_PADDING
                    then Inr (PaddingFrame, decodePaddingFrame cursor)
                    else (case decodeOther frameType cursor of
                            Inl e \<Rightarrow> Inl e
                          | Inr (f, m) \<Rightarrow> Inr (OtherFrame f, trimStart m cursor)))))"

text \<open>The loop of \<open>decodeRegularPacket\<close>: frames are parsed until the queue is empty.\<close>

function decodeRegularPacket ::
  "(byte \<Rightarrow> BufChain \<Rightarrow> DecodeError + ('f \<times> nat)) \<Rightarrow> BufChain
     \<Rightarrow> DecodeError + 'f QuicFrame list" where
  "decodeRegularPacket decodeOther queue =
     (if chainLength queue > 0
      then (case parseFrame decodeOther queue of
              Inl e \<Rightarrow> Inl e
            | Inr (f, queue') \<Rightarrow>
                (case decodeRegularPacket decodeOther queue' of
                   Inl e \<Rightarrow> Inl e
                 | Inr fs \<Rightarrow> Inr (f # fs)))
      else Inr [])"
  by pat_completeness auto
termination
proof (relation "measure (\<lambda>(d, q). chainLength q)")
  show "wf (measure (\<lambda>(d :: byte \<Rightarrow> BufChain \<Rightarrow> DecodeError + ('f \<times> nat), q :: BufChain).
              chainLength q))"
    by simp
next
  fix decodeOther :: "byte \<Rightarrow> BufChain \<Rightarrow> DecodeError + ('f \<times> nat)"
    and queue queue' :: BufChain and r f
  assume pos: "0 < chainLength queue"
    and p: "parseFrame decodeOther queue = Inr r" and r: "(f, queue') = r"
  have trim: "chainLength (trimStart k q) = chainLength q - k" for k and q :: BufChain
    by (induction q arbitrary: k) (auto simp: chainLength_def)
  have pad: "chainLength (decodePaddingFrame (trimStart k q)) \<le> chainLength q - k"
    for k and q :: BufChain
    by (auto simp: decodePaddingFrame_def Let_def trim)
  from p r obtain v n rest where
    d: "decodeQuicInteger (concat queue) = Some ((v, n), rest)"
    and q: "chainLength queue' \<le> chainLength queue - n"
    by (auto simp: parseFrame_def Let_def pad trim
        split: if_splits option.splits sum.splits prod.splits)
  from d have "0 < n"
    by (cases "concat queue") (auto simp: decodeQuicInteger_def Let_def split: if_splits)
  with pos q have "chainLength queue' < chainLength queue"
    by (simp add: trim)
  then show "((decodeOther, queue'), (decodeOther, queue)) \<in> measure (\<lambda>(d, q). chainLength q)"
    by simp
qed

declare decodeRegularPacket.simps [simp del]

text \<open>
  An instance of the parameter of \<open>parseFrame\<close> in which every type but padding is
  unknown, the last \<open>throw\<close> of the switch.
\<close>

definition unknownFrame :: "byte \<Rightarrow> BufChain \<Rightarrow> DecodeError + (unit \<times> nat)" where
  "unknownFrame type cursor =
     Inl (QuicTransportException ''Unknown frame'' FRAME_ENCODING_ERROR None)"

section \<open>Stateless reset and version negotiation builders (QuicPacketBuilder.cpp)\<close>

text \<open>
  \<open>folly::Random::secureRandom\<close> fills a buffer of the requested length; the model takes
  the source of random bytes as a parameter \<open>rnd\<close>, the i-th byte drawn being \<open>rnd i\<close>.
\<close>

definition secureRandom :: "(nat \<Rightarrow> byte) \<Rightarrow> nat \<Rightarrow> byte list" where
  "secureRandom rnd n = map rnd [0..<n]"

text \<open>
  The constructor of \<open>StatelessResetPacketBuilder\<close>; the result is the buffer that
  \<open>buildPacket\<close> hands out. The length of the random part is computed in \<open>uint16_t\<close>.
\<close>

definition StatelessResetPacketBuilder :: "(nat \<Rightarrow> byte) \<Rightarrow> 16 word \<Rightarrow> byte list \<Rightarrow> byte list" where
  "StatelessResetPacketBuilder rnd maxPacketSize resetToken =
     (let randomOctetLength = (maxPacketSize - of_nat (length resetToken) - 1 :: 16 word);
          initialByte = ShortHeader_kFixedBitMask;
          randomOctets = secureRandom rnd (unat randomOctetLength)
      in [initialByte] @ randomOctets @ resetToken)"

type_synonym QuicVersion = "32 word"

text \<open>
  Modelled from the spec: \<open>QuicVersion::VERSION_NEGOTIATION\<close> is declared outside the
  sources at hand; specification 4.7 gives the version field of the packet as 0.
\<close>

definition VERSION_NEGOTIATION :: QuicVersion where
  "VERSION_NEGOTIATION = 0"

definition writeBE32 :: "32 word \<Rightarrow> byte list" where
  "writeBE32 v = [ucast (drop_bit 24 v), ucast (drop_bit 16 v), ucast (drop_bit 8 v), ucast v]"

record VersionNegotiationPacket =
  packetType :: byte
  vn_sourceConnectionId :: ConnectionId
  vn_destinationConnectionId :: ConnectionId
  versions :: "QuicVersion list"

record VersionNegotiationPacketBuilder =
  vn_remainingBytes :: "32 word"
  vn_packet :: VersionNegotiationPacket
  vn_data :: "byte list"

definition generateRandomPacketType :: byte where
  "generateRandomPacketType = kHeaderFormMask"

text \<open>The loop over the versions: it stops at the first version that no longer fits.\<close>

fun writeVersions ::
  "QuicVersion list \<Rightarrow> VersionNegotiationPacketBuilder \<Rightarrow> VersionNegotiationPacketBuilder" where
  "writeVersions [] b = b"
| "writeVersions (version # rest) b =
     (if vn_remainingBytes b < 4 then b
      else writeVersions rest
             (b\<lparr>vn_data := vn_data b @ writeBE32 version,
                vn_remainingBytes := vn_remainingBytes b - 4,
                vn_packet := (vn_packet b)\<lparr>versions := versions (vn_packet b) @ [version]\<rparr>\<rparr>))"

definition writeVersionNegotiationHeader ::
  "VersionNegotiationPacketBuilder \<Rightarrow> VersionNegotiationPacketBuilder" where
  "writeVersionNegotiationHeader b =
     (let p = vn_packet b;
          dcid = vn_destinationConnectionId p;
          scid = vn_sourceConnectionId p
      in b\<lparr>vn_data := vn_data b @ [packetType p] @ writeBE32 VERSION_NEGOTIATION
                   @ [of_nat (length dcid)] @ dcid @ [of_nat (length scid)] @ scid,
           vn_remainingBytes := vn_remainingBytes b - 1 - 4 - 1 - of_nat (length dcid)
                                  - 1 - of_nat (length scid)\<rparr>)"

definition writeVersionNegotiationPacket ::
  "QuicVersion list \<Rightarrow> VersionNegotiationPacketBuilder \<Rightarrow> VersionNegotiationPacketBuilder" where
  "writeVersionNegotiationPacket vs b = writeVersions vs (writeVersionNegotiationHeader b)"

text \<open>
  The constructor. \<open>kDefaultUDPSendPacketLen\<close> is declared outside the sources at hand
  and is a parameter of the model.
\<close>

definition VersionNegotiationPacketBuilder_new ::
  "32 word \<Rightarrow> ConnectionId \<Rightarrow> ConnectionId \<Rightarrow> QuicVersion list
     \<Rightarrow> VersionNegotiationPacketBuilder" where
  "VersionNegotiationPacketBuilder_new kDefaultUDPSendPacketLen sourceConnectionId
       destinationConnectionId vs =
     writeVersionNegotiationPacket vs
       \<lparr>vn_remainingBytes = kDefaultUDPSendPacketLen,
        vn_packet = \<lparr>packetType = generateRandomPacketType,
                      vn_sourceConnectionId = sourceConnectionId,
                      vn_destinationConnectionId = destinationConnectionId,
                      versions = []\<rparr>,
        vn_data = []\<rparr>"

definition vn_buildPacket ::
  "VersionNegotiationPacketBuilder \<Rightarrow> VersionNegotiationPacket \<times> byte list" where
  "vn_buildPacket b = (vn_packet b, vn_data b)"

section \<open>Packet builders (QuicPacketBuilder.cpp)\<close>

subsection \<open>Integers on the wire\<close>

text \<open>\<open>bigEndian n v\<close> is the big-endian image of the low \<open>n\<close> bytes of \<open>v\<close>.\<close>

definition bigEndian :: "nat \<Rightarrow> 64 word \<Rightarrow> byte list" where
  "bigEndian n v = map (\<lambda>i. ucast (drop_bit (8 * (n - 1 - i)) v)) [0..<n]"

datatype BuilderError =
    OptionalEmpty
  | QuicIntegerTooLarge
  | CheckFailed
  | PacketNumNotEncodable
  | OutOfBounds

text \<open>
  Modelled from the spec: \<open>QuicInteger\<close> and its \<open>encode\<close> and \<open>getSize\<close> are defined in
  the QuicInteger unit, which is not part of the sources at hand. Specification 4.1: the
  two most-significant bits of the first byte encode the length (1, 2, 4 or 8 bytes), the
  remaining bits are the big-endian value; encoding fails when the value exceeds
  \<open>2^62 - 1\<close>; the encoder emits the shortest form. \<open>encodeQuicIntegerFixed\<close> is the
  encoder called with an explicit output size (the fixed-width varint of 4.5).
\<close>

definition QuicInteger_getSize :: "64 word \<Rightarrow> BuilderError + nat" where
  "QuicInteger_getSize v =
     (if v \<le> 0x3F then Inr 1
      else if v \<le> 0x3FFF then Inr 2
      else if v \<le> 0x3FFFFFFF then Inr 4
      else if v \<le> 0x3FFFFFFFFFFFFFFF then Inr 8
      else Inl QuicIntegerTooLarge)"

definition varintBytes :: "nat \<Rightarrow> 64 word \<Rightarrow> byte list" where
  "varintBytes n v =
     bigEndian n (v OR push_bit (8 * n - 2)
        (if n = 1 then 0 else if n = 2 then 1 else if n = 4 then 2 else 3))"

definition encodeQuicInteger :: "64 word \<Rightarrow> BuilderError + byte list" where
  "encodeQuicInteger v =
     (case QuicInteger_getSize v of
        Inl e \<Rightarrow> Inl e
      | Inr n \<Rightarrow> Inr (varintBytes n v))"

definition encodeQuicIntegerFixed :: "64 word \<Rightarrow> nat \<Rightarrow> BuilderError + byte list" where
  "encodeQuicIntegerFixed v outputSize =
     (if outputSize = 1 then (if v \<le> 0x3F then Inr (varintBytes 1 v) else Inl CheckFailed)
      else if outputSize = 2 then (if v \<le> 0x3FFF then Inr (varintBytes 2 v) else Inl CheckFailed)
      else if outputSize = 4
        then (if v \<le> 0x3FFFFFFF then Inr (varintBytes 4 v) else Inl CheckFailed)
      else if outputSize = 8
        then (if v \<le> 0x3FFFFFFFFFFFFFFF then Inr (varintBytes 8 v) else Inl CheckFailed)
      else Inl CheckFailed)"

subsection \<open>Packet numbers\<close>

record PacketNumEncodingResult =
  pnResult :: PacketNum
  pnLength :: "64 word"

text \<open>
  Modelled from the spec: \<open>encodePacketNumber\<close> is defined in the PacketNumber unit, which
  is not part of the sources at hand. Specification 4.2: given \<open>pn\<close> and \<open>largestAcked\<close>,
  choose the smallest byte length in 1..4 such that the window \<open>2^(8 len - 1)\<close> strictly
  exceeds \<open>pn - largestAcked\<close>; the result is \<open>pn\<close> truncated to that many bytes.
\<close>

definition encodePacketNumber :: "PacketNum \<Rightarrow> PacketNum \<Rightarrow> BuilderError + PacketNumEncodingResult" where
  "encodePacketNumber packetNum largestAckedPacketNum =
     (let distance = packetNum - largestAckedPacketNum
      in if distance < 2 ^ 7 then Inr \<lparr>pnResult = take_bit 8 packetNum, pnLength = 1\<rparr>
         else if distance < 2 ^ 15 then Inr \<lparr>pnResult = take_bit 16 packetNum, pnLength = 2\<rparr>
         else if distance < 2 ^ 23 then Inr \<lparr>pnResult = take_bit 24 packetNum, pnLength = 3\<rparr>
         else if distance < 2 ^ 31 then Inr \<lparr>pnResult = take_bit 32 packetNum, pnLength = 4\<rparr>
         else Inl PacketNumNotEncodable)"

subsection \<open>Headers\<close>

datatype LongHeaderTypes = Initial | ZeroRtt | Handshake | Retry

record LongHeader =
  headerType :: LongHeaderTypes
  version :: QuicVersion
  sourceConnId :: ConnectionId
  destinationConnId :: ConnectionId
  packetSequenceNum :: PacketNum
  token :: "byte list"
  originalDstConnId :: "ConnectionId option"

text \<open>
  The header of a packet under construction. \<open>parseShortHeader\<close> leaves the packet number
  of a short header unset; a builder is given it with the header.
\<close>

datatype PacketHeader = LongPacketHeader LongHeader | ShortPacketHeader ShortHeader PacketNum

definition asLong :: "PacketHeader \<Rightarrow> LongHeader option" where
  "asLong h = (case h of LongPacketHeader l \<Rightarrow> Some l | ShortPacketHeader _ _ \<Rightarrow> None)"

text \<open>
  Constants that are declared outside the sources at hand and whose values the
  specification does not give are parameters of the model: the largest packet-number
  encoding size, the size of a header-protection sample, and the layout of the initial byte
  of a long header.
\<close>

record CodecConstants =
  kMaxPacketNumEncodingSize :: "64 word"
  sizeof_Sample :: "64 word"
  LongHeader_kFixedBitMask :: byte
  LongHeader_kReservedBitsMask :: byte
  LongHeader_kTypeShift :: nat
  LongHeader_typeValue :: "LongHeaderTypes \<Rightarrow> byte"

text \<open>
  Modelled from the spec: \<open>kMaxPacketLenSize\<close> is declared outside the sources at hand;
  specification 4.5 gives it as always 4.
\<close>

definition kMaxPacketLenSize :: nat where
  "kMaxPacketLenSize = 4"

text \<open>
  \<open>encodeLongHeaderHelper\<close> returns the bytes it hands to the buffer operation, the updated
  space counter and the packet-number encoding.
\<close>

definition encodeLongHeaderHelper ::
  "CodecConstants \<Rightarrow> LongHeader \<Rightarrow> 32 word \<Rightarrow> PacketNum
     \<Rightarrow> BuilderError + (byte list \<times> 32 word \<times> PacketNumEncodingResult)" where
  "encodeLongHeaderHelper k longHeader spaceCounter largestAckedPacketNum =
     (case encodePacketNumber (packetSequenceNum longHeader) largestAckedPacketNum of
        Inl e \<Rightarrow> Inl e
      | Inr encodedPacketNum \<Rightarrow>
     (let initialByte0 =
            (((kHeaderFormMask OR LongHeader_kFixedBitMask k
                OR push_bit (LongHeader_kTypeShift k) (LongHeader_typeValue k (headerType longHeader)))
               AND NOT (LongHeader_kReservedBitsMask k))
              OR ucast (pnLength encodedPacketNum - 1));
          isRetry = (headerType longHeader = Retry);
          isInitial = (headerType longHeader = Initial);
          tok = token longHeader
      in if isRetry \<and> originalDstConnId longHeader = None then Inl OptionalEmpty
      else
     (let odcid = (case originalDstConnId longHeader of None \<Rightarrow> [] | Some c \<Rightarrow> c);
          odcidSize = (of_nat (length odcid) :: 64 word);
          initialByte =
            (if isRetry
             then (initialByte0 AND 0xF0) OR ucast (if odcidSize = 0 then 0 else odcidSize - 3)
             else initialByte0)
      in (case (if isInitial then QuicInteger_getSize (of_nat (length tok)) else Inr 0) of
            Inl e \<Rightarrow> Inl e
          | Inr tokenLengthSize \<Rightarrow>
     (let tokenHeaderLength =
            (if isInitial then of_nat tokenLengthSize + of_nat (length tok) else 0 :: 64 word);
          longHeaderSize =
            (1 + 4 + 1 + of_nat (length (sourceConnId longHeader)) + 1
               + of_nat (length (destinationConnId longHeader)) + tokenHeaderLength
               + of_nat kMaxPacketLenSize + pnLength encodedPacketNum :: 64 word);
          spaceCounter' =
            (if ucast spaceCounter < longHeaderSize then 0
             else spaceCounter - ucast longHeaderSize);
          fixedPart =
            [initialByte] @ writeBE32 (version longHeader)
              @ [of_nat (length (destinationConnId longHeader))] @ destinationConnId longHeader
              @ [of_nat (length (sourceConnId longHeader))] @ sourceConnId longHeader
      in (case (if isInitial then encodeQuicInteger (of_nat (length tok)) else Inr []) of
            Inl e \<Rightarrow> Inl e
          | Inr tokenLengthBytes \<Rightarrow>
              (let initialPart = (if isInitial then tokenLengthBytes @ tok else [])
               in if isRetry \<and> tok = [] then Inl CheckFailed
                  else Inr (fixedPart @ initialPart
                              @ (if isRetry then [of_nat (length odcid)] @ odcid @ tok else []),
                            spaceCounter', encodedPacketNum))))))))"

definition encodeShortHeaderHelper ::
  "ShortHeader \<Rightarrow> PacketNum \<Rightarrow> 32 word \<Rightarrow> PacketNum
     \<Rightarrow> BuilderError + (byte list \<times> 32 word \<times> PacketNumEncodingResult option)" where
  "encodeShortHeaderHelper shortHeader packetNum spaceCounter largestAckedPacketNum =
     (case encodePacketNumber packetNum largestAckedPacketNum of
        Inl e \<Rightarrow> Inl e
      | Inr packetNumberEncoding \<Rightarrow>
          if (ucast spaceCounter :: 64 word)
               < 1 + pnLength packetNumberEncoding + of_nat (length (connectionId shortHeader))
          then Inr ([], 0, None)
          else
            (let initialByte0 =
                   (ShortHeader_kFixedBitMask OR ucast (pnLength packetNumberEncoding - 1))
                     AND NOT ShortHeader_kReservedBitsMask;
                 initialByte =
                   (if protectionType shortHeader = KeyPhaseOne
                    then initialByte0 OR ShortHeader_kKeyPhaseMask else initialByte0)
             in Inr ([initialByte] @ connectionId shortHeader,
                     spaceCounter - 1 - of_nat (length (connectionId shortHeader)),
                     Some packetNumberEncoding)))"

subsection \<open>The growable-buffer builder\<close>

record 'f RegularQuicPacketBuilder =
  r_remainingBytes :: "32 word"
  r_header :: PacketHeader
  r_frames :: "'f list"
  r_headerBuf :: "byte list"
  r_bodyBuf :: "byte list"
  r_packetNumberEncoding :: "PacketNumEncodingResult option"
  r_cipherOverhead :: byte

text \<open>
  \<open>appendBytes\<close> pushes the last \<open>byteNumber\<close> bytes of the big-endian 8-byte image of
  the value; more than 8 bytes would be read from outside the value.
\<close>

definition appendBytesImage :: "PacketNum \<Rightarrow> byte \<Rightarrow> BuilderError + byte list" where
  "appendBytesImage v byteNumber =
     (if unat byteNumber \<le> 8 then Inr (bigEndian (unat byteNumber) v) else Inl OutOfBounds)"

definition r_appendBytesHeader ::
  "PacketNum \<Rightarrow> byte \<Rightarrow> 'f RegularQuicPacketBuilder \<Rightarrow> BuilderError + 'f RegularQuicPacketBuilder" where
  "r_appendBytesHeader v byteNumber b =
     (case appendBytesImage v byteNumber of
        Inl e \<Rightarrow> Inl e
      | Inr bs \<Rightarrow> Inr (b\<lparr>r_headerBuf := r_headerBuf b @ bs,
                          r_remainingBytes := r_remainingBytes b - ucast byteNumber\<rparr>))"

definition RegularQuicPacketBuilder_new ::
  "CodecConstants \<Rightarrow> 32 word \<Rightarrow> PacketHeader \<Rightarrow> PacketNum
     \<Rightarrow> BuilderError + 'f RegularQuicPacketBuilder" where
  "RegularQuicPacketBuilder_new k remainingBytes header largestAckedPacketNum =
     (let b0 = \<lparr>r_remainingBytes = remainingBytes, r_header = header, r_frames = [],
                r_headerBuf = [], r_bodyBuf = [], r_packetNumberEncoding = None,
                r_cipherOverhead = 0\<rparr>
      in case header of
           LongPacketHeader longHeader \<Rightarrow>
             (case encodeLongHeaderHelper k longHeader remainingBytes largestAckedPacketNum of
                Inl e \<Rightarrow> Inl e
              | Inr (bs, space, enc) \<Rightarrow>
                  Inr (b0\<lparr>r_headerBuf := bs, r_remainingBytes := space,
                          r_packetNumberEncoding := Some enc\<rparr>))
         | ShortPacketHeader shortHeader packetNum \<Rightarrow>
             (case encodeShortHeaderHelper shortHeader packetNum remainingBytes
                     largestAckedPacketNum of
                Inl e \<Rightarrow> Inl e
              | Inr (bs, space, None) \<Rightarrow>
                  Inr (b0\<lparr>r_headerBuf := bs, r_remainingBytes := space\<rparr>)
              | Inr (bs, space, Some enc) \<Rightarrow>
                  r_appendBytesHeader (pnResult enc) (ucast (pnLength enc))
                    (b0\<lparr>r_headerBuf := bs, r_remainingBytes := space,
                        r_packetNumberEncoding := Some enc\<rparr>)))"

definition r_push :: "byte list \<Rightarrow> 'f RegularQuicPacketBuilder \<Rightarrow> 'f RegularQuicPacketBuilder" where
  "r_push data b =
     b\<lparr>r_bodyBuf := r_bodyBuf b @ data,
       r_remainingBytes := r_remainingBytes b - of_nat (length data)\<rparr>"

definition r_appendFrame :: "'f \<Rightarrow> 'f RegularQuicPacketBuilder \<Rightarrow> 'f RegularQuicPacketBuilder" where
  "r_appendFrame frame b = b\<lparr>r_frames := r_frames b @ [frame]\<rparr>"

definition r_setCipherOverhead ::
  "byte \<Rightarrow> 'f RegularQuicPacketBuilder \<Rightarrow> 'f RegularQuicPacketBuilder" where
  "r_setCipherOverhead overhead b = b\<lparr>r_cipherOverhead := overhead\<rparr>"

text \<open>
  \<open>write(paddingType)\<close>: the padding frame type is the one-byte variable-length integer 0.
\<close>

definition r_writePadding :: "'f RegularQuicPacketBuilder \<Rightarrow> 'f RegularQuicPacketBuilder" where
  "r_writePadding b =
     b\<lparr>r_bodyBuf := r_bodyBuf b @ [FrameType_PADDING],
       r_remainingBytes := r_remainingBytes b - 1\<rparr>"

text \<open>The padding loop of \<open>buildPacket\<close>; it returns \<open>extraDataWritten\<close> and the builder.\<close>

function r_paddingLoop ::
  "64 word \<Rightarrow> 64 word \<Rightarrow> 64 word \<Rightarrow> 'f RegularQuicPacketBuilder
     \<Rightarrow> 64 word \<times> 'f RegularQuicPacketBuilder" where
  "r_paddingLoop minBodySize bodyLength extraDataWritten b =
     (if bodyLength + extraDataWritten + ucast (r_cipherOverhead b) < minBodySize
         \<and> r_frames b \<noteq> [] \<and> r_remainingBytes b > of_nat kMaxPacketLenSize
      then r_paddingLoop minBodySize bodyLength (extraDataWritten + 1) (r_writePadding b)
      else (extraDataWritten, b))"
  by pat_completeness auto

termination r_paddingLoop
proof (relation "measure (\<lambda>(m, l, e, b). unat (r_remainingBytes b))")
  show "wf (measure (\<lambda>(m :: 64 word, l :: 64 word, e :: 64 word,
      b :: 'f RegularQuicPacketBuilder). unat (r_remainingBytes b)))"
    by simp
next
  fix minBodySize bodyLength extraDataWritten :: "64 word" and b :: "'f RegularQuicPacketBuilder"
  assume "bodyLength + extraDataWritten + ucast (r_cipherOverhead b) < minBodySize
         \<and> r_frames b \<noteq> [] \<and> r_remainingBytes b > of_nat kMaxPacketLenSize"
  then have "r_remainingBytes b > 4" by (simp add: kMaxPacketLenSize_def)
  then have "unat (r_remainingBytes b - 1) < unat (r_remainingBytes b)" by unat_arith
  then show "((minBodySize, bodyLength, extraDataWritten + 1, r_writePadding b),
              (minBodySize, bodyLength, extraDataWritten, b))
        \<in> measure (\<lambda>(m, l, e, b). unat (r_remainingBytes b))"
    by (simp add: r_writePadding_def)
qed

declare r_paddingLoop.simps [simp del]

definition r_buildPacket ::
  "CodecConstants \<Rightarrow> 'f RegularQuicPacketBuilder
     \<Rightarrow> BuilderError + ((PacketHeader \<times> 'f list) \<times> byte list \<times> byte list)" where
  "r_buildPacket k b =
     (case r_packetNumberEncoding b of
        None \<Rightarrow> Inl OptionalEmpty
      | Some enc \<Rightarrow>
     (let longHeader = asLong (r_header b);
          minBodySize = kMaxPacketNumEncodingSize k - pnLength enc + sizeof_Sample k;
          bodyLength = (of_nat (length (r_bodyBuf b)) :: 64 word);
          (extraDataWritten, b1) = r_paddingLoop minBodySize bodyLength 0 b
      in if (case longHeader of None \<Rightarrow> False | Some l \<Rightarrow> headerType l \<noteq> Retry)
         then (case encodeQuicInteger
                      (pnLength enc + of_nat (length (r_bodyBuf b1)) + ucast (r_cipherOverhead b1)) of
                 Inl e \<Rightarrow> Inl e
               | Inr pktLen \<Rightarrow>
                   (case r_appendBytesHeader (pnResult enc) (ucast (pnLength enc))
                           (b1\<lparr>r_headerBuf := r_headerBuf b1 @ pktLen\<rparr>) of
                      Inl e \<Rightarrow> Inl e
                    | Inr b2 \<Rightarrow> Inr ((r_header b2, r_frames b2), r_headerBuf b2, r_bodyBuf b2)))
         else Inr ((r_header b1, r_frames b1), r_headerBuf b1, r_bodyBuf b1)))"

subsection \<open>The in-place builder\<close>

text \<open>
  The in-place builder writes header and body into one caller-provided buffer, whose
  readable bytes are \<open>i_iobuf\<close>; offsets are counted from its start. It writes through a
  \<open>BufWriter\<close>, which is declared outside the sources at hand and modelled as follows.
  The writer is constructed with the number of bytes it may write at most
  (\<open>bufWriter_(iobuf, remainingBytes)\<close>) and counts the bytes it has written, those of
  \<open>append\<close> included (the comment in the constructor of the builder): \<open>i_most\<close> and
  \<open>i_written\<close>. A write that would pass the limit fails the check of the writer.
  \<open>BufWriter::append\<close> moves the tail over bytes that are filled in later (zero until
  then), and \<open>BufWriter::backFill\<close> overwrites bytes at an offset inside the readable
  range. The buffer of the caller is taken to have room for \<open>i_most\<close> bytes.
\<close>

record 'f InplaceQuicPacketBuilder =
  i_iobuf :: "byte list"
  i_written :: nat
  i_most :: nat
  i_remainingBytes :: "32 word"
  i_header :: PacketHeader
  i_frames :: "'f list"
  i_packetNumberEncoding :: "PacketNumEncodingResult option"
  i_cipherOverhead :: byte
  i_packetLenOffset :: nat
  i_packetNumOffset :: nat
  i_bodyStart :: nat

definition bufWriter_push ::
  "byte list \<Rightarrow> 'f InplaceQuicPacketBuilder \<Rightarrow> BuilderError + 'f InplaceQuicPacketBuilder" where
  "bufWriter_push data b =
     (if i_written b + length data \<le> i_most b
      then Inr (b\<lparr>i_iobuf := i_iobuf b @ data, i_written := i_written b + length data\<rparr>)
      else Inl CheckFailed)"

definition bufWriter_append ::
  "nat \<Rightarrow> 'f InplaceQuicPacketBuilder \<Rightarrow> 'f InplaceQuicPacketBuilder" where
  "bufWriter_append len b =
     b\<lparr>i_iobuf := i_iobuf b @ replicate len 0, i_written := i_written b + len\<rparr>"

definition backFill :: "byte list \<Rightarrow> nat \<Rightarrow> byte list \<Rightarrow> BuilderError + byte list" where
  "backFill data destOffset buf =
     (if destOffset + length data \<le> length buf
      then Inr (take destOffset buf @ data @ drop (destOffset + length data) buf)
      else Inl CheckFailed)"

text \<open>
  The constructor. For a long header it hands the helper its parameter \<open>remainingBytes\<close>
  as the space counter, not the member, so \<open>remainingBytes_\<close> keeps the value of the
  parameter while the writer has counted the header, the packet length and the packet
  number as written.
\<close>

definition InplaceQuicPacketBuilder_new ::
  "CodecConstants \<Rightarrow> byte list \<Rightarrow> 32 word \<Rightarrow> PacketHeader \<Rightarrow> PacketNum
     \<Rightarrow> BuilderError + 'f InplaceQuicPacketBuilder" where
  "InplaceQuicPacketBuilder_new k iobuf remainingBytes header largestAckedPacketNum =
     (let b0 = \<lparr>i_iobuf = iobuf, i_written = 0, i_most = unat remainingBytes,
                i_remainingBytes = remainingBytes, i_header = header,
                i_frames = [], i_packetNumberEncoding = None, i_cipherOverhead = 0,
                i_packetLenOffset = 0, i_packetNumOffset = 0, i_bodyStart = 0\<rparr>
      in case header of
           LongPacketHeader longHeader \<Rightarrow>
             (case encodeLongHeaderHelper k longHeader remainingBytes largestAckedPacketNum of
                Inl e \<Rightarrow> Inl e
              | Inr (bs, space, enc) \<Rightarrow>
             (case bufWriter_push bs b0 of
                Inl e \<Rightarrow> Inl e
              | Inr b1' \<Rightarrow>
                  (let b1 = b1'\<lparr>i_packetNumberEncoding := Some enc\<rparr>;
                       b2 = (if headerType longHeader \<noteq> Retry
                             then bufWriter_append (unat (pnLength enc) + kMaxPacketLenSize)
                                    (b1\<lparr>i_packetLenOffset := length (i_iobuf b1),
                                        i_packetNumOffset :=
                                          length (i_iobuf b1) + kMaxPacketLenSize\<rparr>)
                             else b1)
                   in Inr (b2\<lparr>i_bodyStart := length (i_iobuf b2)\<rparr>))))
         | ShortPacketHeader shortHeader packetNum \<Rightarrow>
             (case encodeShortHeaderHelper shortHeader packetNum remainingBytes
                     largestAckedPacketNum of
                Inl e \<Rightarrow> Inl e
              | Inr (bs, space, encoding) \<Rightarrow>
             (case bufWriter_push bs (b0\<lparr>i_remainingBytes := space\<rparr>) of
                Inl e \<Rightarrow> Inl e
              | Inr b1 \<Rightarrow>
             (case encoding of
                None \<Rightarrow> Inr (b1\<lparr>i_bodyStart := length (i_iobuf b1)\<rparr>)
              | Some enc \<Rightarrow>
             (case appendBytesImage (pnResult enc) (ucast (pnLength enc)) of
                Inl e \<Rightarrow> Inl e
              | Inr pn \<Rightarrow>
             (case bufWriter_push pn (b1\<lparr>i_packetNumberEncoding := Some enc\<rparr>) of
                Inl e \<Rightarrow> Inl e
              | Inr b2 \<Rightarrow>
                  Inr (b2\<lparr>i_remainingBytes :=
                            i_remainingBytes b2 - ucast (ucast (pnLength enc) :: byte),
                          i_bodyStart := length (i_iobuf b2)\<rparr>)))))))"

definition i_push ::
  "byte list \<Rightarrow> 'f InplaceQuicPacketBuilder \<Rightarrow> BuilderError + 'f InplaceQuicPacketBuilder" where
  "i_push data b =
     (case bufWriter_push data b of
        Inl e \<Rightarrow> Inl e
      | Inr b1 \<Rightarrow> Inr (b1\<lparr>i_remainingBytes := i_remainingBytes b1 - of_nat (length data)\<rparr>))"

definition i_appendFrame :: "'f \<Rightarrow> 'f InplaceQuicPacketBuilder \<Rightarrow> 'f InplaceQuicPacketBuilder" where
  "i_appendFrame frame b = b\<lparr>i_frames := i_frames b @ [frame]\<rparr>"

definition i_setCipherOverhead ::
  "byte \<Rightarrow> 'f InplaceQuicPacketBuilder \<Rightarrow> 'f InplaceQuicPacketBuilder" where
  "i_setCipherOverhead overhead b = b\<lparr>i_cipherOverhead := overhead\<rparr>"

definition i_writePadding ::
  "'f InplaceQuicPacketBuilder \<Rightarrow> BuilderError + 'f InplaceQuicPacketBuilder" where
  "i_writePadding b =
     (case bufWriter_push [FrameType_PADDING] b of
        Inl e \<Rightarrow> Inl e
      | Inr b1 \<Rightarrow> Inr (b1\<lparr>i_remainingBytes := i_remainingBytes b1 - 1\<rparr>))"

function i_paddingLoop ::
  "64 word \<Rightarrow> 64 word \<Rightarrow> 64 word \<Rightarrow> 'f InplaceQuicPacketBuilder
     \<Rightarrow> BuilderError + (64 word \<times> 'f InplaceQuicPacketBuilder)" where
  "i_paddingLoop minBodySize bodyLength extraDataWritten b =
     (if bodyLength + extraDataWritten + ucast (i_cipherOverhead b) < minBodySize
         \<and> i_frames b \<noteq> [] \<and> i_remainingBytes b > of_nat kMaxPacketLenSize
      then (case i_writePadding b of
              Inl e \<Rightarrow> Inl e
            | Inr b1 \<Rightarrow> i_paddingLoop minBodySize bodyLength (extraDataWritten + 1) b1)
      else Inr (extraDataWritten, b))"
  by pat_completeness auto
termination
proof (relation "measure (\<lambda>(m, l, e, b). unat (i_remainingBytes b))")
  show "wf (measure (\<lambda>(m :: 64 word, l :: 64 word, e :: 64 word,
      b :: 'f InplaceQuicPacketBuilder). unat (i_remainingBytes b)))"
    by simp
next
  fix minBodySize bodyLength extraDataWritten :: "64 word"
    and b b1 :: "'f InplaceQuicPacketBuilder"
  assume "bodyLength + extraDataWritten + ucast (i_cipherOverhead b) < minBodySize
         \<and> i_frames b \<noteq> [] \<and> i_remainingBytes b > of_nat kMaxPacketLenSize"
    and w: "i_writePadding b = Inr b1"
  then have "i_remainingBytes b > 4" by (simp add: kMaxPacketLenSize_def)
  then have "unat (i_remainingBytes b - 1) < unat (i_remainingBytes b)" by unat_arith
  moreover from w have "i_remainingBytes b1 = i_remainingBytes b - 1"
    by (auto simp: i_writePadding_def bufWriter_push_def split: if_splits)
  ultimately show "((minBodySize, bodyLength, extraDataWritten + 1, b1),
              (minBodySize, bodyLength, extraDataWritten, b))
        \<in> measure (\<lambda>(m, l, e, b). unat (i_remainingBytes b))"
    by simp
qed

declare i_paddingLoop.simps [simp del]

definition i_buildPacket ::
  "CodecConstants \<Rightarrow> 'f InplaceQuicPacketBuilder
     \<Rightarrow> BuilderError + ((PacketHeader \<times> 'f list) \<times> byte list \<times> byte list)" where
  "i_buildPacket k b =
     (case i_packetNumberEncoding b of
        None \<Rightarrow> Inl OptionalEmpty
      | Some enc \<Rightarrow>
     (let longHeader = asLong (i_header b);
          minBodySize = kMaxPacketNumEncodingSize k - pnLength enc + sizeof_Sample k;
          bodyLength = (of_nat (length (i_iobuf b) - i_bodyStart b) :: 64 word)
      in case i_paddingLoop minBodySize bodyLength 0 b of
           Inl e \<Rightarrow> Inl e
         | Inr (extraDataWritten, b1) \<Rightarrow>
         if (case longHeader of None \<Rightarrow> False | Some l \<Rightarrow> headerType l \<noteq> Retry)
         then (case encodeQuicIntegerFixed
                      (pnLength enc + bodyLength + ucast (i_cipherOverhead b1))
                      kMaxPacketLenSize of
                 Inl e \<Rightarrow> Inl e
               | Inr pktLen \<Rightarrow>
             (case backFill pktLen (i_packetLenOffset b1) (i_iobuf b1) of
                 Inl e \<Rightarrow> Inl e
               | Inr buf1 \<Rightarrow>
             (if \<not> unat (pnLength enc) \<le> 8 then Inl CheckFailed
              else
             (case backFill (bigEndian (unat (pnLength enc)) (pnResult enc))
                     (i_packetNumOffset b1) buf1 of
                 Inl e \<Rightarrow> Inl e
               | Inr buf2 \<Rightarrow>
                   if \<not> i_bodyStart b1 \<le> length buf2 then Inl CheckFailed
                   else Inr ((i_header b1, i_frames b1),
                             take (i_bodyStart b1) buf2, drop (i_bodyStart b1) buf2)))))
         else if \<not> i_bodyStart b1 \<le> length (i_iobuf b1) then Inl CheckFailed
         else Inr ((i_header b1, i_frames b1),
                   take (i_bodyStart b1) (i_iobuf b1), drop (i_bodyStart b1) (i_iobuf b1))))"

text \<open>
  What the constructor of the in-place builder establishes and the write operations keep:
  the body starts inside the buffer and, for a long header that is not Retry, the reserved
  packet-length slot is followed by the packet-number slot, both before the body.
\<close>

definition i_wellFormed :: "'f InplaceQuicPacketBuilder \<Rightarrow> bool" where
  "i_wellFormed b =
     (i_bodyStart b \<le> length (i_iobuf b)
      \<and> (case i_packetNumberEncoding b of
            None \<Rightarrow> True
          | Some enc \<Rightarrow>
              (case asLong (i_header b) of
                 None \<Rightarrow> True
               | Some l \<Rightarrow>
                   headerType l \<noteq> Retry \<longrightarrow>
                     i_packetNumOffset b = i_packetLenOffset b + kMaxPacketLenSize
                     \<and> i_packetNumOffset b + unat (pnLength enc) \<le> i_bodyStart b)))"

subsection \<open>Notions used to state the properties of the builders\<close>

text \<open>The test \<open>longHeader && longHeader->getHeaderType() != Retry\<close> of \<open>buildPacket\<close>.\<close>

definition longNonRetry :: "PacketHeader \<Rightarrow> bool" where
  "longNonRetry h = (case asLong h of None \<Rightarrow> False | Some l \<Rightarrow> headerType l \<noteq> Retry)"

text \<open>
  The lower bound \<open>kMaxPacketNumEncodingSize - packetNumberLength + sampleSize\<close> of
  specification 4.5, on natural numbers.
\<close>

definition minBodySizeBound :: "CodecConstants \<Rightarrow> PacketNumEncodingResult \<Rightarrow> nat" where
  "minBodySizeBound k enc =
     unat (kMaxPacketNumEncodingSize k) - unat (pnLength enc) + unat (sizeof_Sample k)"

text \<open>
  The number of padding bytes the loop of \<open>buildPacket\<close> appends to a body of
  \<open>bodyLength\<close> bytes: none for a packet without frames; otherwise what the body and the
  cipher overhead lack to the bound, but no more than the space that remains above
  \<open>kMaxPacketLenSize\<close> bytes (subtraction on natural numbers stops at 0).
\<close>

definition paddingLength :: "nat \<Rightarrow> bool \<Rightarrow> nat \<Rightarrow> nat \<Rightarrow> nat \<Rightarrow> nat" where
  "paddingLength minBody hasFrames remaining overhead bodyLength =
     (if hasFrames
      then min (minBody - (bodyLength + overhead)) (remaining - kMaxPacketLenSize)
      else 0)"

text \<open>
  What the padding loop achieves, from the body before and after it: exactly that many
  padding bytes are appended, and nothing else.
\<close>

definition paddingOutcome ::
  "nat \<Rightarrow> bool \<Rightarrow> nat \<Rightarrow> nat \<Rightarrow> byte list \<Rightarrow> byte list \<Rightarrow> bool" where
  "paddingOutcome minBody hasFrames remaining overhead before after =
     (after = before
        @ replicate (paddingLength minBody hasFrames remaining overhead (length before)) 0)"

text \<open>
  An instance of the constants with the values of the QUIC wire format: packet numbers of
  up to 4 bytes, a 16-byte sample, and the long-header initial byte with the fixed bit
  \<open>0x40\<close>, the type in bits 4-5 and the reserved bits \<open>0x0C\<close>.
\<close>

definition quicConstants :: CodecConstants where
  "quicConstants =
     \<lparr>kMaxPacketNumEncodingSize = 4, sizeof_Sample = 16,
      LongHeader_kFixedBitMask = 0x40, LongHeader_kReservedBitsMask = 0x0C,
      LongHeader_kTypeShift = 4,
      LongHeader_typeValue =
        (\<lambda>t. case t of Initial \<Rightarrow> 0 | ZeroRtt \<Rightarrow> 1 | Handshake \<Rightarrow> 2 | Retry \<Rightarrow> 3)\<rparr>"

text \<open>Two headers used in the examples: a 1-RTT header and a Handshake header.\<close>

definition exampleShortHeader :: PacketHeader where
  "exampleShortHeader =
     ShortPacketHeader
       \<lparr>protectionType = KeyPhaseZero, connectionId = [1, 2, 3, 4, 5, 6, 7, 8]\<rparr> 1"

definition exampleHandshakeHeader :: PacketHeader where
  "exampleHandshakeHeader =
     LongPacketHeader
       \<lparr>headerType = Handshake, version = 0xFACEB001, sourceConnId = [9],
        destinationConnId = [1, 2, 3, 4, 5, 6, 7, 8], packetSequenceNum = 1, token = [],
        originalDstConnId = None\<rparr>"

section \<open>Server worker: routing tables and takeover (specification 4.8 and 4.9)\<close>

text \<open>
  Modelled from the spec: the server worker (\<open>QuicServerWorker\<close>) and its takeover packet
  handler are not part of the sources at hand; only their tests are
  (QuicServerTest.cpp). The routing tables are those of specification 3: \<open>ConnIdMap\<close>
  from destination connection id to transport, \<open>SrcToTransportMap\<close> from peer address and
  destination connection id to transport, and \<open>RejectedCidSet\<close>. Transports and peer
  addresses are opaque; \<open>routed\<close> is the set of transports whose routing callback is this
  worker.
\<close>

datatype ProcessId = ProcessZero | ProcessOne


record ('a, 't) QuicServerWorker =
  connectionIdMap :: "ConnectionId \<rightharpoonup> 't"
  sourceAddressMap :: "('a \<times> ConnectionId) \<rightharpoonup> 't"
  rejectedCidSet :: "ConnectionId set"
  routed :: "'t set"
  w_hostId :: "16 word"
  w_processId :: ProcessId
  packetForwardingEnabled :: bool

definition newWorker :: "16 word \<Rightarrow> ProcessId \<Rightarrow> ('a, 't) QuicServerWorker" where
  "newWorker h p =
     \<lparr>connectionIdMap = Map.empty, sourceAddressMap = Map.empty, rejectedCidSet = {},
      routed = {}, w_hostId = h, w_processId = p, packetForwardingEnabled = False\<rparr>"

text \<open>
  Modelled from the spec: connection-id publication of 4.8. \<open>onConnectionIdAvailable\<close>
  registers an additional connection id of the transport in \<open>ConnIdMap\<close>.
\<close>

definition onConnectionIdAvailable ::
  "'t \<Rightarrow> ConnectionId \<Rightarrow> ('a, 't) QuicServerWorker \<Rightarrow> ('a, 't) QuicServerWorker" where
  "onConnectionIdAvailable transport cid w =
     w\<lparr>connectionIdMap := (connectionIdMap w)(cid \<mapsto> transport)\<rparr>"

text \<open>
  Modelled from the spec: unbind of 4.8. \<open>onConnectionUnbound\<close> clears the routing
  callback on the transport, removes all connection ids (given with their sequence
  numbers) from \<open>ConnIdMap\<close>, moves them into \<open>RejectedCidSet\<close>, and removes the source identity
  from \<open>SrcToTransportMap\<close>.
\<close>

definition onConnectionUnbound ::
  "'t \<Rightarrow> ('a \<times> ConnectionId) \<Rightarrow> (ConnectionId \<times> nat) list \<Rightarrow> ('a, 't) QuicServerWorker
     \<Rightarrow> ('a, 't) QuicServerWorker" where
  "onConnectionUnbound transport sourceIdentity cids w =
     w\<lparr>routed := routed w - {transport},
       connectionIdMap := (\<lambda>c. if c \<in> fst ` set cids then None else connectionIdMap w c),
       rejectedCidSet := rejectedCidSet w \<union> fst ` set cids,
       sourceAddressMap := (sourceAddressMap w)(sourceIdentity := None)\<rparr>"

text \<open>
  Modelled from the spec: \<open>rejectConnectionId\<close> is not described by the specification
  beyond the property under test. The test \<open>RejectCid\<close> of QuicServerTest.cpp fixes its
  value on a fresh worker (false), after \<open>onConnectionIdAvailable\<close> for the connection id
  (true, and false for another connection id) and after \<open>onConnectionUnbound\<close> for it (false):
  it tells whether the candidate connection id is in use, that is, in \<open>ConnIdMap\<close>.
\<close>

definition rejectConnectionId :: "('a, 't) QuicServerWorker \<Rightarrow> ConnectionId \<Rightarrow> bool" where
  "rejectConnectionId w candidate = (connectionIdMap w candidate \<noteq> None)"



definition stopPacketForwarding :: "('a, 't) QuicServerWorker \<Rightarrow> ('a, 't) QuicServerWorker" where
  "stopPacketForwarding w = w\<lparr>packetForwardingEnabled := False\<rparr>"












text \<open>
  Modelled from the spec: the takeover envelope of 4.9. A forwarded datagram is written as
  the protocol version (32 bits, equal to 1), the length of the peer address (16 bits) and
  the peer sockaddr bytes, the receive time (64 bits), and the original datagram; integers
  are big-endian, as the test \<open>testPacketForwarding\<close> reads them. The reader of the peer
  strips the envelope and marks the data as forwarded.
\<close>

definition TakeoverProtocolVersion :: "64 word" where
  "TakeoverProtocolVersion = 1"

record NetworkData =
  packet :: "byte list"
  receiveTimePoint :: "64 word"

definition forwardPacketToAnotherServer :: "byte list \<Rightarrow> byte list \<Rightarrow> 64 word \<Rightarrow> byte list" where
  "forwardPacketToAnotherServer peerAddress data packetReceiveTime =
     bigEndian 4 TakeoverProtocolVersion
       @ bigEndian 2 (of_nat (length peerAddress)) @ peerAddress
       @ bigEndian 8 packetReceiveTime
       @ data"

definition readBE :: "nat \<Rightarrow> Cursor \<Rightarrow> (64 word \<times> Cursor) option" where
  "readBE n cursor =
     (if length cursor < n then None else Some (beValue (take n cursor), drop n cursor))"

definition processForwardedPacket :: "byte list \<Rightarrow> (byte list \<times> NetworkData \<times> bool) option" where
  "processForwardedPacket bytes =
     (case readBE 4 bytes of
        None \<Rightarrow> None
      | Some (protocol, cursor1) \<Rightarrow>
     (case readBE 2 cursor1 of
        None \<Rightarrow> None
      | Some (addrLen, cursor2) \<Rightarrow>
          if length cursor2 < unat addrLen then None
          else
     (let peerAddress = take (unat addrLen) cursor2
      in case readBE 8 (drop (unat addrLen) cursor2) of
           None \<Rightarrow> None
         | Some (pktReceiveEpoch, cursor3) \<Rightarrow>
             Some (peerAddress,
                   \<lparr>packet = cursor3, receiveTimePoint = pktReceiveEpoch\<rparr>, True))))"

text \<open>
  The checks that the test \<open>testPacketForwarding\<close> (QuicServerTest.cpp) makes on the bytes
  written to the takeover socket, for the client address and the datagram it sent: the bytes
  differ from the datagram, the version is 1, the address that follows is the client's, the
  receive time is before \<open>now\<close>, and what remains after the envelope is the datagram.
\<close>

definition testPacketForwardingChecks ::
  "byte list \<Rightarrow> byte list \<Rightarrow> 64 word \<Rightarrow> byte list \<Rightarrow> bool" where
  "testPacketForwardingChecks data clientAddr now writtenData =
     (data \<noteq> writtenData
      \<and> (case readBE 4 writtenData of
            None \<Rightarrow> False
          | Some (protocotVersion, cursor1) \<Rightarrow>
              protocotVersion = 1
              \<and> (case readBE 2 cursor1 of
                    None \<Rightarrow> False
                  | Some (addrLen, cursor2) \<Rightarrow>
                      length cursor2 \<ge> unat addrLen
                      \<and> take (unat addrLen) cursor2 = clientAddr
                      \<and> (case readBE 8 (drop (unat addrLen) cursor2) of
                            None \<Rightarrow> False
                          | Some (pktReceiveEpoch, _) \<Rightarrow>
                              pktReceiveEpoch < now
                              \<and> drop (4 + 2 + unat addrLen + 8) writtenData = data))))"

section \<open>ACK blocks as the specification words them\<close>













section \<open>Short header: error codes and key phase\<close>

lemma headerForm_Short_iff: "(getHeaderForm b = Short) = (\<not> bit b 7)"
proof -
  have e: "kHeaderFormMask = 2 ^ 7" by (simp add: kHeaderFormMask_def)
  have "(b AND kHeaderFormMask = 0) = (\<not> bit b 7)"
    unfolding e by (rule and_exp_eq_0_iff_not_bit)
  then show ?thesis by (simp add: getHeaderForm_def)
qed

lemma fixed_bit_iff: "(b AND ShortHeader_kFixedBitMask = 0) = (\<not> bit b 6)"
proof -
  have e: "ShortHeader_kFixedBitMask = 2 ^ 6" by (simp add: ShortHeader_kFixedBitMask_def)
  show ?thesis unfolding e by (rule and_exp_eq_0_iff_not_bit)
qed

lemma reserved_bits_iff:
  "(b AND ShortHeader_kReservedBitsMask \<noteq> 0) = (bit b 4 \<or> bit b 5)"
proof -
  have e: "ShortHeader_kReservedBitsMask = 2 ^ 4 OR 2 ^ 5"
    by (simp add: ShortHeader_kReservedBitsMask_def)
  have "b AND ShortHeader_kReservedBitsMask = (b AND 2 ^ 4) OR (b AND 2 ^ 5)"
    unfolding e by (rule bit.conj_disj_distrib)
  then show ?thesis
    by (simp only: or_eq_0_iff and_exp_eq_0_iff_not_bit) auto
qed

lemma key_phase_bit_iff: "(b AND ShortHeader_kKeyPhaseMask \<noteq> 0) = bit b 2"
proof -
  have e: "ShortHeader_kKeyPhaseMask = 2 ^ 2" by (simp add: ShortHeader_kKeyPhaseMask_def)
  have "(b AND ShortHeader_kKeyPhaseMask = 0) = (\<not> bit b 2)"
    unfolding e by (rule and_exp_eq_0_iff_not_bit)
  then show ?thesis by simp
qed

text \<open>
  C4, as the code has it. For an initial byte of short header form, \<open>parseShortHeader\<close>
  fails with \<open>FRAME_ENCODING_ERROR\<close> when the fixed bit (bit 6) is 0, and with
  \<open>PROTOCOL_VIOLATION\<close> when the fixed bit is 1 and a reserved bit (bits 4-5) is set;
  when it succeeds, the fixed bit is 1, the reserved bits are 0, and the key phase of the
  returned header is \<open>KeyPhaseOne\<close> exactly when bit 2 of the initial byte is set.
\<close>

theorem parseShortHeader_error_codes:
  assumes "getHeaderForm initialByte = Short"
  shows "(\<not> bit initialByte 6 \<longrightarrow>
            parseShortHeader initialByte cursor dstConnIdSize = Inl FRAME_ENCODING_ERROR)
       \<and> (bit initialByte 6 \<and> (bit initialByte 4 \<or> bit initialByte 5) \<longrightarrow>
            parseShortHeader initialByte cursor dstConnIdSize = Inl PROTOCOL_VIOLATION)
       \<and> (\<forall>h c. parseShortHeader initialByte cursor dstConnIdSize = Inr (h, c) \<longrightarrow>
            bit initialByte 6 \<and> \<not> bit initialByte 4 \<and> \<not> bit initialByte 5
            \<and> ((protectionType h = KeyPhaseOne) = bit initialByte 2))"
  using assms
  by (auto simp: parseShortHeader_def fixed_bit_iff reserved_bits_iff key_phase_bit_iff
           split: sum.splits if_splits)

theorem parseShortHeader_error_codes_witness:
  "parseShortHeader 0x04 [1, 2, 3, 4, 5, 6, 7, 8] 8 = Inl FRAME_ENCODING_ERROR
   \<and> parseShortHeader 0x50 [1, 2, 3, 4, 5, 6, 7, 8] 8 = Inl PROTOCOL_VIOLATION
   \<and> parseShortHeader 0x44 [1, 2, 3, 4, 5, 6, 7, 8, 9] 8
       = Inr (\<lparr>protectionType = KeyPhaseOne, connectionId = [1, 2, 3, 4, 5, 6, 7, 8]\<rparr>, [9])
   \<and> bit (0x44 :: byte) 2"
proof -
  have s1: "getHeaderForm 0x04 = Short" and s2: "getHeaderForm 0x50 = Short"
    and s3: "getHeaderForm 0x44 = Short"
    by (simp_all add: getHeaderForm_def kHeaderFormMask_def)
  have r: "parseShortHeader 0x44 [1, 2, 3, 4, 5, 6, 7, 8, 9] 8
       = Inr (\<lparr>protectionType = KeyPhaseOne, connectionId = [1, 2, 3, 4, 5, 6, 7, 8]\<rparr>, [9])"
    by (simp add: parseShortHeader_def parseShortHeaderInvariants_def getHeaderForm_def
        kHeaderFormMask_def ShortHeader_kFixedBitMask_def ShortHeader_kReservedBitsMask_def
        ShortHeader_kKeyPhaseMask_def kMaxConnectionIdSize_def)
  show ?thesis
    using parseShortHeader_error_codes [OF s1, of "[1, 2, 3, 4, 5, 6, 7, 8]" 8]
      parseShortHeader_error_codes [OF s2, of "[1, 2, 3, 4, 5, 6, 7, 8]" 8]
      parseShortHeader_error_codes [OF s3, of "[1, 2, 3, 4, 5, 6, 7, 8, 9]" 8] r
    by simp
qed

text \<open>
  C4 as stated fails: the initial byte \<open>0x04\<close> has short header form and a fixed bit of 0,
  and the parse fails with \<open>FRAME_ENCODING_ERROR\<close>, not \<open>PROTOCOL_VIOLATION\<close>.
\<close>

theorem parseShortHeader_fixed_bit_counterexample:
  "getHeaderForm 0x04 = Short \<and> \<not> bit (0x04 :: byte) 6
   \<and> parseShortHeader 0x04 [1, 2, 3, 4, 5, 6, 7, 8] 8 = Inl FRAME_ENCODING_ERROR
   \<and> parseShortHeader 0x04 [1, 2, 3, 4, 5, 6, 7, 8] 8 \<noteq> Inl PROTOCOL_VIOLATION"
  by (simp add: parseShortHeader_def getHeaderForm_def kHeaderFormMask_def
      ShortHeader_kFixedBitMask_def)

section \<open>ACK frames: reconstruction of the ack blocks\<close>




























section \<open>Padding: a run of zero bytes in one buffer is one frame\<close>

lemma decodeQuicInteger_zero:
  "decodeQuicInteger (0 # rest) = Some ((0, 1), rest)"
  by (simp add: decodeQuicInteger_def beValue_def)

lemma decodePaddingFrame_zeros: "decodePaddingFrame [0 # replicate m 0] = []"
proof -
  have "take m (0 # replicate m (0 :: byte)) = take m (replicate m 0)"
    by (induction m) simp_all
  then show ?thesis
    by (simp add: decodePaddingFrame_def memcmp_def Let_def)
qed

lemma parseFrame_zeros:
  "parseFrame decodeOther [replicate (Suc m) 0] = Inr (PaddingFrame, [])"
proof (cases m)
  case 0
  then show ?thesis
    by (simp add: parseFrame_def sizeof_FrameType_def chainLength_def decodeQuicInteger_zero
        FrameType_PADDING_def decodePaddingFrame_def)
next
  case (Suc k)
  then show ?thesis
    by (simp add: parseFrame_def sizeof_FrameType_def chainLength_def decodeQuicInteger_zero
        FrameType_PADDING_def decodePaddingFrame_zeros)
qed

lemma decodeRegularPacket_empty: "decodeRegularPacket decodeOther [] = Inr []"
  by (subst decodeRegularPacket.simps) (simp add: chainLength_def)

text \<open>
  C9, as the code has it. For every packet payload consisting of one or more consecutive
  zero bytes held in one buffer, frame parsing consumes all of those bytes and produces
  exactly one Padding frame for the whole run: the first \<open>parseFrame\<close> leaves an empty
  queue, and the frame loop of \<open>decodeRegularPacket\<close> returns the single frame.
\<close>

theorem padding_run_is_one_frame:
  assumes "0 < n"
  shows "parseFrame decodeOther [replicate n 0] = Inr (PaddingFrame, [])
       \<and> decodeRegularPacket decodeOther [replicate n 0] = Inr [PaddingFrame]"
proof -
  from assms obtain m where n: "n = Suc m" by (cases n) auto
  have p: "parseFrame decodeOther [replicate n 0] = Inr (PaddingFrame, [])"
    unfolding n by (rule parseFrame_zeros)
  have "decodeRegularPacket decodeOther [replicate n 0] = Inr [PaddingFrame]"
    using assms
    by (subst decodeRegularPacket.simps) (simp add: p decodeRegularPacket_empty chainLength_def)
  with p show ?thesis by simp
qed

theorem padding_run_is_one_frame_witness:
  "parseFrame unknownFrame [[0, 0, 0]] = Inr (PaddingFrame, [])
   \<and> decodeRegularPacket unknownFrame [[0, 0, 0]] = Inr [PaddingFrame]"
proof -
  have "(0 :: nat) < 3" by simp
  from padding_run_is_one_frame [OF this, of unknownFrame]
  show ?thesis by (simp add: numeral_3_eq_3)
qed

text \<open>
  The claim as stated, for every payload of zero bytes, fails on a payload held in a chain
  of two buffers: the padding decoder looks at the bytes of the current buffer only, so the
  run \<open>0 0 | 0\<close> is parsed as two Padding frames, the first ending at the boundary.
\<close>

theorem padding_run_chained_counterexample:
  "concat [[0, 0], [0 :: byte]] = replicate 3 0
   \<and> parseFrame unknownFrame [[0, 0], [0]] = Inr (PaddingFrame, [[0]])
   \<and> decodeRegularPacket unknownFrame [[0, 0], [0]] = Inr [PaddingFrame, PaddingFrame]"
  by code_simp

section \<open>Stateless reset: layout and length of the datagram\<close>

text \<open>
  C8, as the code has it. For every \<open>maxPacketSize\<close> of at least 17 and every 16-byte reset
  token, the stateless-reset builder emits exactly: one initial byte with only the fixed
  bit set, then \<open>maxPacketSize - tokenLength - 1\<close> random bytes, then the 16-byte reset
  token; the datagram is exactly \<open>maxPacketSize\<close> bytes long and its last 16 bytes equal
  the token.
\<close>

theorem StatelessResetPacketBuilder_layout:
  assumes "17 \<le> unat maxPacketSize" and "length resetToken = 16"
  shows "StatelessResetPacketBuilder rnd maxPacketSize resetToken
           = [0x40] @ secureRandom rnd (unat maxPacketSize - 16 - 1) @ resetToken
       \<and> length (StatelessResetPacketBuilder rnd maxPacketSize resetToken) = unat maxPacketSize
       \<and> drop (unat maxPacketSize - 16)
            (StatelessResetPacketBuilder rnd maxPacketSize resetToken) = resetToken"
proof -
  have u: "unat (maxPacketSize - 16 - 1) = unat maxPacketSize - 16 - 1"
    using assms(1) by unat_arith
  define pre where "pre = [0x40] @ secureRandom rnd (unat maxPacketSize - 16 - 1)"
  have r: "StatelessResetPacketBuilder rnd maxPacketSize resetToken = pre @ resetToken"
    using assms(2) u
    by (simp add: StatelessResetPacketBuilder_def Let_def ShortHeader_kFixedBitMask_def pre_def)
  have l: "length pre = unat maxPacketSize - 16"
    using assms(1) by (simp add: pre_def secureRandom_def)
  have "length (pre @ resetToken) = unat maxPacketSize"
    using assms l by simp
  moreover have "drop (unat maxPacketSize - 16) (pre @ resetToken) = resetToken"
    using l by simp
  ultimately show ?thesis
    unfolding r by (simp add: pre_def)
qed

theorem StatelessResetPacketBuilder_layout_witness:
  "StatelessResetPacketBuilder (\<lambda>i. of_nat i) 20 (replicate 16 0xAA)
     = [0x40, 0, 1, 2] @ replicate 16 0xAA
   \<and> length (StatelessResetPacketBuilder (\<lambda>i. of_nat i) 20 (replicate 16 0xAA)) = 20"
proof -
  have a: "17 \<le> unat (20 :: 16 word)" by simp
  have b: "length (replicate 16 (0xAA :: byte)) = 16" by simp
  have c: "secureRandom (\<lambda>i. of_nat i) (unat (20 :: 16 word) - 16 - 1) = [0, 1, 2]"
    by (simp add: secureRandom_def upt_rec)
  from StatelessResetPacketBuilder_layout [OF a b, of "\<lambda>i. of_nat i"] c
  show ?thesis by simp
qed

text \<open>
  C8 as stated fails for a \<open>maxPacketSize\<close> below 17: the length of the random part wraps
  around in \<open>uint16_t\<close>. With \<open>maxPacketSize = 16\<close> the datagram has 65552 bytes, not 16.
\<close>

theorem StatelessResetPacketBuilder_small_counterexample:
  "length (StatelessResetPacketBuilder (\<lambda>i. 0) 16 (replicate 16 0xAA)) = 65552
   \<and> length (StatelessResetPacketBuilder (\<lambda>i. 0) 16 (replicate 16 0xAA)) \<noteq> unat (16 :: 16 word)"
  by (simp add: StatelessResetPacketBuilder_def Let_def secureRandom_def
      unsigned_minus_1_eq_mask mask_eq_exp_minus_1)

section \<open>Version negotiation: the versions that fit\<close>

lemma remaining_step:
  fixes r :: "32 word"
  assumes "\<not> r < 4"
  shows "unat (r - 4) = unat r - 4" and "unat r div 4 = Suc (unat (r - 4) div 4)"
proof -
  show u: "unat (r - 4) = unat r - 4" using assms by unat_arith
  have "4 \<le> unat r" using assms by unat_arith
  then show "unat r div 4 = Suc (unat (r - 4) div 4)"
    unfolding u by (simp add: le_div_geq)
qed

lemma remaining_stop:
  fixes r :: "32 word"
  assumes "r < 4"
  shows "unat r div 4 = 0"
proof -
  have "unat r < 4" using assms by unat_arith
  then show ?thesis by simp
qed

lemma writeVersions_prefix:
  "versions (vn_packet (writeVersions vs b))
     = versions (vn_packet b) @ take (unat (vn_remainingBytes b) div 4) vs
   \<and> vn_data (writeVersions vs b)
     = vn_data b @ concat (map writeBE32 (take (unat (vn_remainingBytes b) div 4) vs))
   \<and> unat (vn_remainingBytes (writeVersions vs b))
     = unat (vn_remainingBytes b) - 4 * length (take (unat (vn_remainingBytes b) div 4) vs)
   \<and> packetType (vn_packet (writeVersions vs b)) = packetType (vn_packet b)
   \<and> vn_sourceConnectionId (vn_packet (writeVersions vs b)) = vn_sourceConnectionId (vn_packet b)
   \<and> vn_destinationConnectionId (vn_packet (writeVersions vs b))
     = vn_destinationConnectionId (vn_packet b)"
proof (induction vs arbitrary: b)
  case Nil
  then show ?case by simp
next
  case (Cons v vs)
  show ?case
  proof (cases "vn_remainingBytes b < 4")
    case True
    then show ?thesis by (simp add: remaining_stop)
  next
    case False
    note st = remaining_step [OF False]
    let ?b' = "b\<lparr>vn_data := vn_data b @ writeBE32 v,
                vn_remainingBytes := vn_remainingBytes b - 4,
                vn_packet := (vn_packet b)\<lparr>versions := versions (vn_packet b) @ [v]\<rparr>\<rparr>"
    have w: "writeVersions (v # vs) b = writeVersions vs ?b'"
      using False by simp
    have le: "4 \<le> unat (vn_remainingBytes b)" using False by unat_arith
    show ?thesis
      unfolding w using Cons.IH [of ?b'] le
      by (simp add: st)
  qed
qed

lemma length_writeBE32: "length (writeBE32 v) = 4"
  by (simp add: writeBE32_def)

lemma length_concat_writeBE32: "length (concat (map writeBE32 xs)) = 4 * length xs"
  by (induction xs) (simp_all add: length_writeBE32)

lemma header_remaining:
  fixes K :: "32 word"
  assumes "7 + n + m \<le> unat K"
  shows "unat (K - 1 - 4 - 1 - of_nat n - 1 - of_nat m) = unat K - (7 + n + m)"
proof -
  have K: "unat K < 2 ^ 32" using unsigned_less [of K] by simp
  define t where "t = (of_nat (7 + n + m) :: 32 word)"
  have "unat t = (7 + n + m) mod 2 ^ 32"
    unfolding t_def by (simp only: unat_of_nat) simp
  then have ut: "unat t = 7 + n + m"
    using assms K by simp
  then have "t \<le> K" using assms by (simp add: word_le_nat_alt)
  then have "unat (K - t) = unat K - unat t" by (rule unat_sub)
  then have r: "unat (K - t) = unat K - (7 + n + m)" by (simp only: ut)
  have e: "K - 1 - 4 - 1 - of_nat n - 1 - of_nat m = K - t"
    by (simp add: t_def)
  show ?thesis unfolding e by (rule r)
qed

text \<open>
  C10. The version-negotiation builder writes a supported version into the packet only
  while at least 4 bytes remain of its \<open>kDefaultUDPSendPacketLen\<close> byte budget (the header
  of the packet fitting the budget): the emitted version list is the longest prefix of the
  supplied list that fits, the wire bytes are the header followed by exactly these versions,
  and the returned packet structure lists exactly these versions.
\<close>

theorem VersionNegotiation_longest_prefix:
  assumes "7 + length dcid + length scid \<le> unat K"
  shows "versions (fst (vn_buildPacket (VersionNegotiationPacketBuilder_new K scid dcid vs)))
           = take ((unat K - (7 + length dcid + length scid)) div 4) vs
       \<and> snd (vn_buildPacket (VersionNegotiationPacketBuilder_new K scid dcid vs))
           = [kHeaderFormMask] @ writeBE32 0 @ [of_nat (length dcid)] @ dcid
               @ [of_nat (length scid)] @ scid
               @ concat (map writeBE32
                   (take ((unat K - (7 + length dcid + length scid)) div 4) vs))
       \<and> length (snd (vn_buildPacket (VersionNegotiationPacketBuilder_new K scid dcid vs)))
           \<le> unat K
       \<and> ((unat K - (7 + length dcid + length scid)) div 4 < length vs \<longrightarrow>
            unat K
              < length (snd (vn_buildPacket (VersionNegotiationPacketBuilder_new K scid dcid vs)))
                + 4)"
proof -
  define b0 where "b0 = writeVersionNegotiationHeader
       \<lparr>vn_remainingBytes = K,
        vn_packet = \<lparr>packetType = generateRandomPacketType,
                      vn_sourceConnectionId = scid,
                      vn_destinationConnectionId = dcid,
                      versions = []\<rparr>,
        vn_data = []\<rparr>"
  define h where "h = 7 + length dcid + length scid"
  define k where "k = (unat K - h) div 4"
  have B: "VersionNegotiationPacketBuilder_new K scid dcid vs = writeVersions vs b0"
    by (simp add: VersionNegotiationPacketBuilder_new_def writeVersionNegotiationPacket_def
        b0_def)
  have r0: "unat (vn_remainingBytes b0) = unat K - h"
    using header_remaining [OF assms]
    by (simp add: b0_def writeVersionNegotiationHeader_def Let_def h_def)
  have d0: "vn_data b0 = [kHeaderFormMask] @ writeBE32 0 @ [of_nat (length dcid)] @ dcid
               @ [of_nat (length scid)] @ scid"
    by (simp add: b0_def writeVersionNegotiationHeader_def Let_def generateRandomPacketType_def
        VERSION_NEGOTIATION_def)
  have l0: "length (vn_data b0) = h"
    by (simp add: d0 h_def length_writeBE32)
  have v0: "versions (vn_packet b0) = []"
    by (simp add: b0_def writeVersionNegotiationHeader_def Let_def)
  note P = writeVersions_prefix [of vs b0, unfolded r0, folded k_def]
  have vers: "versions (vn_packet (writeVersions vs b0)) = take k vs"
    using P v0 by simp
  have data: "vn_data (writeVersions vs b0) = vn_data b0 @ concat (map writeBE32 (take k vs))"
    using P by simp
  have len: "length (vn_data (writeVersions vs b0)) = h + 4 * length (take k vs)"
    by (simp add: data l0 length_concat_writeBE32)
  have "4 * k \<le> unat K - h" by (simp add: k_def)
  moreover have "length (take k vs) \<le> k" by simp
  ultimately have fit: "length (vn_data (writeVersions vs b0)) \<le> unat K"
    using assms unfolding len h_def by linarith
  have tight: "unat K < length (vn_data (writeVersions vs b0)) + 4" if "k < length vs"
  proof -
    have "length (take k vs) = k" using that by simp
    moreover have "unat K - h < 4 * k + 4"
      unfolding k_def by presburger
    ultimately show ?thesis using assms unfolding len h_def by linarith
  qed
  show ?thesis
    unfolding B vn_buildPacket_def fst_conv snd_conv
    using vers data fit tight
    by (simp add: d0 k_def h_def)
qed

theorem VersionNegotiation_longest_prefix_witness:
  "versions (fst (vn_buildPacket (VersionNegotiationPacketBuilder_new 20 [3] [1, 2]
       [0xFACEB001, 0xFACEB002, 0xFACEB003]))) = [0xFACEB001, 0xFACEB002]
   \<and> snd (vn_buildPacket (VersionNegotiationPacketBuilder_new 20 [3] [1, 2]
       [0xFACEB001, 0xFACEB002, 0xFACEB003]))
     = [0x80, 0, 0, 0, 0, 2, 1, 2, 1, 3, 0xFA, 0xCE, 0xB0, 0x01, 0xFA, 0xCE, 0xB0, 0x02]
   \<and> unat (20 :: 32 word)
       < length (snd (vn_buildPacket (VersionNegotiationPacketBuilder_new 20 [3] [1, 2]
           [0xFACEB001, 0xFACEB002, 0xFACEB003]))) + 4"
proof -
  have a: "7 + length [1, 2 :: byte] + length [3 :: byte] \<le> unat (20 :: 32 word)" by simp
  have k: "(unat (20 :: 32 word) - (7 + length [1, 2 :: byte] + length [3 :: byte])) div 4 = 2"
    by simp
  from VersionNegotiation_longest_prefix [OF a, of "[0xFACEB001, 0xFACEB002, 0xFACEB003]"]
  show ?thesis
    unfolding k by (simp add: writeBE32_def kHeaderFormMask_def)
qed

section \<open>Packet builders: the padding loop and the built packet\<close>

lemma remaining_pred:
  fixes r :: "32 word"
  assumes "r > 4"
  shows "Suc (unat (r - 1)) = unat r"
  using assms by unat_arith

lemma r_paddingLoop_props:
  "r_paddingLoop m l e b = (e', b') \<Longrightarrow>
     r_frames b' = r_frames b \<and> r_cipherOverhead b' = r_cipherOverhead b
     \<and> r_headerBuf b' = r_headerBuf b \<and> r_header b' = r_header b
     \<and> r_packetNumberEncoding b' = r_packetNumberEncoding b
     \<and> (\<exists>n. r_bodyBuf b' = r_bodyBuf b @ replicate n 0 \<and> e' = e + of_nat n
            \<and> unat (r_remainingBytes b') + n = unat (r_remainingBytes b)
            \<and> (0 < n \<longrightarrow> l + (e' - 1) + ucast (r_cipherOverhead b) < m \<and> r_frames b \<noteq> []
                  \<and> 4 \<le> unat (r_remainingBytes b')))
     \<and> \<not> (l + e' + ucast (r_cipherOverhead b) < m \<and> r_frames b \<noteq> []
            \<and> r_remainingBytes b' > 4)"
proof (induction m l e b arbitrary: e' b' rule: r_paddingLoop.induct)
  case (1 m l e b)
  show ?case
  proof (cases "l + e + ucast (r_cipherOverhead b) < m
         \<and> r_frames b \<noteq> [] \<and> r_remainingBytes b > of_nat kMaxPacketLenSize")
    case True
    then have rec: "r_paddingLoop m l (e + 1) (r_writePadding b) = (e', b')"
      using "1.prems" by (subst (asm) r_paddingLoop.simps) simp
    from True have r4: "r_remainingBytes b > 4" by (simp add: kMaxPacketLenSize_def)
    note IH = "1.IH" [OF True rec]
    from IH obtain n where n:
      "r_bodyBuf b' = r_bodyBuf (r_writePadding b) @ replicate n 0"
      "e' = e + 1 + of_nat n"
      "unat (r_remainingBytes b') + n = unat (r_remainingBytes (r_writePadding b))"
      "0 < n \<longrightarrow> l + (e' - 1) + ucast (r_cipherOverhead (r_writePadding b)) < m"
      "0 < n \<longrightarrow> 4 \<le> unat (r_remainingBytes b')"
      by blast
    have "r_bodyBuf b' = r_bodyBuf b @ replicate (Suc n) 0"
      using n(1) by (simp add: r_writePadding_def FrameType_PADDING_def replicate_app_Cons_same)
    moreover have "e' = e + of_nat (Suc n)" using n(2) by simp
    moreover have "unat (r_remainingBytes b') + Suc n = unat (r_remainingBytes b)"
      using n(3) remaining_pred [OF r4] by (simp add: r_writePadding_def)
    moreover have "l + (e' - 1) + ucast (r_cipherOverhead b) < m"
    proof (cases "0 < n")
      case True
      with n(4) show ?thesis by (simp add: r_writePadding_def)
    next
      case False
      then have "e' - 1 = e" using n(2) by simp
      with \<open>l + e + ucast (r_cipherOverhead b) < m
         \<and> r_frames b \<noteq> [] \<and> r_remainingBytes b > of_nat kMaxPacketLenSize\<close>
      show ?thesis by simp
    qed
    moreover have "4 \<le> unat (r_remainingBytes b')"
    proof (cases "0 < n")
      case True
      with n(5) show ?thesis by simp
    next
      case False
      with n(3) remaining_pred [OF r4] r4 show ?thesis
        by (simp add: r_writePadding_def word_less_nat_alt)
    qed
    ultimately have "\<exists>n. r_bodyBuf b' = r_bodyBuf b @ replicate n 0 \<and> e' = e + of_nat n
            \<and> unat (r_remainingBytes b') + n = unat (r_remainingBytes b)
            \<and> (0 < n \<longrightarrow> l + (e' - 1) + ucast (r_cipherOverhead b) < m \<and> r_frames b \<noteq> []
                  \<and> 4 \<le> unat (r_remainingBytes b'))"
      using True by blast
    with IH show ?thesis by (simp add: r_writePadding_def)
  next
    case False
    then have "e' = e" "b' = b"
      using "1.prems" by (subst (asm) r_paddingLoop.simps; simp)+
    with False show ?thesis by (auto simp: kMaxPacketLenSize_def)
  qed
qed


lemma size_sum_unat:
  fixes ov :: byte
  assumes "L < 2 ^ 32" "n < 2 ^ 32"
  shows "unat ((of_nat L :: 64 word) + of_nat n + ucast ov) = L + n + unat ov"
proof -
  have o: "unat ov < 2 ^ 8" using unsigned_less [of ov] by simp
  have 1: "unat (of_nat L :: 64 word) = L" using assms(1) by (simp add: unat_of_nat)
  have 2: "unat (of_nat n :: 64 word) = n" using assms(2) by (simp add: unat_of_nat)
  have "unat (ucast ov :: 64 word) = take_bit 64 (unat ov)" by (simp only: unsigned_ucast_eq) simp
  then have 3: "unat (ucast ov :: 64 word) = unat ov" using o by (simp add: take_bit_eq_mod)
  have "unat ((of_nat L :: 64 word) + of_nat n + ucast ov)
      = (L + n + unat ov) mod 2 ^ 64"
    by (simp only: unat_word_ariths 1 2 3 mod_add_left_eq) simp
  also have "\<dots> = L + n + unat ov"
    using assms o by simp
  finally show ?thesis .
qed

lemma minBody_unat:
  fixes K p S :: "64 word"
  assumes "unat p \<le> unat K" "unat K + unat S < 2 ^ 32"
  shows "unat (K - p + S) = unat K - unat p + unat S"
proof -
  have "p \<le> K" using assms(1) by (simp add: word_le_nat_alt)
  then have 1: "unat (K - p) = unat K - unat p" by (rule unat_sub)
  have "unat (K - p + S) = (unat K - unat p + unat S) mod 2 ^ 64"
    by (simp only: unat_word_ariths 1) simp
  also have "\<dots> = unat K - unat p + unat S" using assms(2) by simp
  finally show ?thesis .
qed


lemma r_buildPacket_body:
  assumes enc: "r_packetNumberEncoding b = Some enc"
    and ok: "r_buildPacket k b = Inr (pkt, hdr, body)"
  shows "\<exists>e' b1. r_paddingLoop
            (kMaxPacketNumEncodingSize k - pnLength enc + sizeof_Sample k)
            (of_nat (length (r_bodyBuf b))) 0 b = (e', b1) \<and> body = r_bodyBuf b1"
proof -
  obtain e' b1 where lp: "r_paddingLoop
            (kMaxPacketNumEncodingSize k - pnLength enc + sizeof_Sample k)
            (of_nat (length (r_bodyBuf b))) 0 b = (e', b1)"
    by (cases "r_paddingLoop
            (kMaxPacketNumEncodingSize k - pnLength enc + sizeof_Sample k)
            (of_nat (length (r_bodyBuf b))) 0 b") blast
  have "body = r_bodyBuf b1"
  proof (cases "case asLong (r_header b) of None \<Rightarrow> False | Some l \<Rightarrow> headerType l \<noteq> Retry")
    case True
    with ok show ?thesis
      unfolding r_buildPacket_def
      by (auto simp add: enc lp Let_def r_appendBytesHeader_def split: sum.splits)
  next
    case False
    with ok show ?thesis
      unfolding r_buildPacket_def by (simp add: enc lp Let_def)
  qed
  with lp show ?thesis by blast
qed

lemma padding_count:
  fixes n L ov M R R1 :: nat
  assumes rem: "R1 + n = R"
    and lo: "0 < n \<Longrightarrow> L + n + ov \<le> M \<and> 4 \<le> R1"
    and ex: "M \<le> L + n + ov \<or> R1 \<le> 4"
  shows "n = min (M - (L + ov)) (R - 4)"
proof (cases "0 < n")
  case True
  from lo [OF True] rem ex show ?thesis by (auto simp: min_def)
next
  case False
  with rem ex show ?thesis by (auto simp: min_def)
qed

lemma r_buildPacket_padding:
  assumes enc: "r_packetNumberEncoding b = Some enc"
    and pn: "unat (pnLength enc) \<le> unat (kMaxPacketNumEncodingSize k)"
    and ks: "unat (kMaxPacketNumEncodingSize k) + unat (sizeof_Sample k) < 2 ^ 32"
    and len: "length (r_bodyBuf b) < 2 ^ 32"
    and ok: "r_buildPacket k b = Inr (pkt, hdr, body)"
  shows "body = r_bodyBuf b @ replicate
      (if r_frames b \<noteq> []
       then min (unat (kMaxPacketNumEncodingSize k) - unat (pnLength enc) + unat (sizeof_Sample k)
                   - (length (r_bodyBuf b) + unat (r_cipherOverhead b)))
                (unat (r_remainingBytes b) - kMaxPacketLenSize)
       else 0) 0"
proof -
  define m where "m = kMaxPacketNumEncodingSize k - pnLength enc + sizeof_Sample k"
  define M where "M = unat (kMaxPacketNumEncodingSize k) - unat (pnLength enc)
      + unat (sizeof_Sample k)"
  define L where "L = length (r_bodyBuf b)"
  have um: "unat m = M" unfolding m_def M_def by (rule minBody_unat [OF pn ks])
  from r_buildPacket_body [OF enc ok] obtain e' b1 where
    lp: "r_paddingLoop m (of_nat L) 0 b = (e', b1)" and body: "body = r_bodyBuf b1"
    unfolding m_def L_def by blast
  from r_paddingLoop_props [OF lp] obtain n where
    n: "r_bodyBuf b1 = r_bodyBuf b @ replicate n 0" "e' = of_nat n"
      "unat (r_remainingBytes b1) + n = unat (r_remainingBytes b)"
      "0 < n \<longrightarrow> of_nat L + (e' - 1) + ucast (r_cipherOverhead b) < m \<and> r_frames b \<noteq> []
          \<and> 4 \<le> unat (r_remainingBytes b1)"
    and ex: "\<not> (of_nat L + e' + ucast (r_cipherOverhead b) < m \<and> r_frames b \<noteq> []
            \<and> r_remainingBytes b1 > 4)"
    by auto
  have nb: "n < 2 ^ 32"
  proof -
    have "unat (r_remainingBytes b) < 2 ^ 32" using unsigned_less [of "r_remainingBytes b"] by simp
    with n(3) show ?thesis by linarith
  qed
  have up: "M \<le> L + n + unat (r_cipherOverhead b) \<or> unat (r_remainingBytes b1) \<le> 4"
    if "r_frames b \<noteq> []"
  proof (cases "r_remainingBytes b1 > 4")
    case True
    with ex that have "\<not> of_nat L + of_nat n + ucast (r_cipherOverhead b) < m"
      by (simp add: n(2))
    then show ?thesis
      by (simp add: word_less_nat_alt size_sum_unat [OF len [folded L_def] nb] um)
  next
    case False
    then show ?thesis by (simp add: word_less_nat_alt)
  qed
  have lo: "L + n + unat (r_cipherOverhead b) \<le> M \<and> 4 \<le> unat (r_remainingBytes b1)"
    if pos: "0 < n"
  proof -
    obtain n' where n': "n = Suc n'" using pos by (cases n) auto
    have e1: "e' - 1 = of_nat n'" by (simp add: n(2) n')
    have "n' < 2 ^ 32" using nb n' by simp
    from n(4) pos have "of_nat L + of_nat n' + ucast (r_cipherOverhead b) < m"
      by (simp add: e1)
    then have "L + n' + unat (r_cipherOverhead b) < M"
      by (simp add: word_less_nat_alt size_sum_unat [OF len [folded L_def] \<open>n' < 2 ^ 32\<close>] um)
    with n(4) pos show ?thesis by (simp add: n')
  qed
  show ?thesis
  proof (cases "r_frames b = []")
    case True
    with n(4) have "n = 0" by auto
    with True show ?thesis by (simp add: body n(1))
  next
    case False
    from padding_count [OF n(3) lo up [OF False]]
    have "n = min (M - (L + unat (r_cipherOverhead b))) (unat (r_remainingBytes b) - 4)"
      by simp
    with False show ?thesis
      by (simp add: body n(1) M_def L_def kMaxPacketLenSize_def)
  qed
qed

lemma i_writePadding_props:
  assumes "i_writePadding b = Inr b1"
  shows "b1 = b\<lparr>i_iobuf := i_iobuf b @ [0], i_written := Suc (i_written b),
                 i_remainingBytes := i_remainingBytes b - 1\<rparr>"
    and "i_written b < i_most b"
  using assms
  by (auto simp: i_writePadding_def bufWriter_push_def FrameType_PADDING_def split: if_splits)

lemma i_paddingLoop_props:
  "i_paddingLoop m l e b = Inr (e', b') \<Longrightarrow>
     i_frames b' = i_frames b \<and> i_cipherOverhead b' = i_cipherOverhead b
     \<and> i_bodyStart b' = i_bodyStart b \<and> i_header b' = i_header b
     \<and> i_packetLenOffset b' = i_packetLenOffset b \<and> i_packetNumOffset b' = i_packetNumOffset b
     \<and> i_packetNumberEncoding b' = i_packetNumberEncoding b \<and> i_most b' = i_most b
     \<and> (\<exists>n. i_iobuf b' = i_iobuf b @ replicate n 0 \<and> e' = e + of_nat n
            \<and> unat (i_remainingBytes b') + n = unat (i_remainingBytes b)
            \<and> i_written b' = i_written b + n \<and> i_written b' \<le> max (i_written b) (i_most b)
            \<and> (0 < n \<longrightarrow> l + (e' - 1) + ucast (i_cipherOverhead b) < m \<and> i_frames b \<noteq> []
                  \<and> 4 \<le> unat (i_remainingBytes b')))
     \<and> \<not> (l + e' + ucast (i_cipherOverhead b) < m \<and> i_frames b \<noteq> []
            \<and> i_remainingBytes b' > 4)"
proof (induction m l e b arbitrary: e' b' rule: i_paddingLoop.induct)
  case (1 m l e b)
  show ?case
  proof (cases "l + e + ucast (i_cipherOverhead b) < m
         \<and> i_frames b \<noteq> [] \<and> i_remainingBytes b > of_nat kMaxPacketLenSize")
    case True
    from True "1.prems" obtain b1 where w: "i_writePadding b = Inr b1"
      and rec: "i_paddingLoop m l (e + 1) b1 = Inr (e', b')"
      by (subst (asm) i_paddingLoop.simps) (auto split: sum.splits)
    note W = i_writePadding_props [OF w]
    from True have r4: "i_remainingBytes b > 4" by (simp add: kMaxPacketLenSize_def)
    note IH = "1.IH" [OF True w rec]
    from IH obtain n where n:
      "i_iobuf b' = i_iobuf b1 @ replicate n 0"
      "e' = e + 1 + of_nat n"
      "unat (i_remainingBytes b') + n = unat (i_remainingBytes b1)"
      "i_written b' = i_written b1 + n" "i_written b' \<le> max (i_written b1) (i_most b1)"
      "0 < n \<longrightarrow> l + (e' - 1) + ucast (i_cipherOverhead b1) < m"
      "0 < n \<longrightarrow> 4 \<le> unat (i_remainingBytes b')"
      by blast
    have "i_iobuf b' = i_iobuf b @ replicate (Suc n) 0"
      using n(1) by (simp add: W(1) replicate_app_Cons_same)
    moreover have "e' = e + of_nat (Suc n)" using n(2) by simp
    moreover have "unat (i_remainingBytes b') + Suc n = unat (i_remainingBytes b)"
      using n(3) remaining_pred [OF r4] by (simp add: W(1))
    moreover have "i_written b' = i_written b + Suc n" using n(4) by (simp add: W(1))
    moreover have "i_written b' \<le> max (i_written b) (i_most b)"
      using n(5) W(2) by (simp add: W(1))
    moreover have "l + (e' - 1) + ucast (i_cipherOverhead b) < m"
    proof (cases "0 < n")
      case True
      with n(6) show ?thesis by (simp add: W(1))
    next
      case False
      then have "e' - 1 = e" using n(2) by simp
      with \<open>l + e + ucast (i_cipherOverhead b) < m
         \<and> i_frames b \<noteq> [] \<and> i_remainingBytes b > of_nat kMaxPacketLenSize\<close>
      show ?thesis by simp
    qed
    moreover have "4 \<le> unat (i_remainingBytes b')"
    proof (cases "0 < n")
      case True
      with n(7) show ?thesis by simp
    next
      case False
      with n(3) remaining_pred [OF r4] r4 show ?thesis
        by (simp add: W(1) word_less_nat_alt)
    qed
    ultimately have "\<exists>n. i_iobuf b' = i_iobuf b @ replicate n 0 \<and> e' = e + of_nat n
            \<and> unat (i_remainingBytes b') + n = unat (i_remainingBytes b)
            \<and> i_written b' = i_written b + n \<and> i_written b' \<le> max (i_written b) (i_most b)
            \<and> (0 < n \<longrightarrow> l + (e' - 1) + ucast (i_cipherOverhead b) < m \<and> i_frames b \<noteq> []
                  \<and> 4 \<le> unat (i_remainingBytes b'))"
      using True by blast
    with IH show ?thesis by (simp add: W(1))
  next
    case False
    then have "e' = e" "b' = b"
      using "1.prems" by (subst (asm) i_paddingLoop.simps; simp)+
    with False show ?thesis by (auto simp: kMaxPacketLenSize_def)
  qed
qed

lemma backFill_props:
  assumes "backFill data off buf = Inr buf'"
  shows "length buf' = length buf"
    and "take (length data) (drop off buf') = data"
    and "off + length data \<le> s \<Longrightarrow> drop s buf' = drop s buf"
    and "s \<le> off \<Longrightarrow> take s buf' = take s buf"
proof -
  from assms have le: "off + length data \<le> length buf"
    and b: "buf' = take off buf @ data @ drop (off + length data) buf"
    by (auto simp: backFill_def split: if_splits)
  show "length buf' = length buf" using le by (simp add: b)
  show "take (length data) (drop off buf') = data" using le by (simp add: b)
  show "drop s buf' = drop s buf" if "off + length data \<le> s"
    using le that by (simp add: b)
  show "take s buf' = take s buf" if "s \<le> off"
    using le that by (simp add: b)
qed


lemma length_bigEndian: "length (bigEndian n v) = n"
  by (simp add: bigEndian_def)

lemma encodeQuicIntegerFixed_length:
  "encodeQuicIntegerFixed v n = Inr p \<Longrightarrow> length p = n"
  by (auto simp: encodeQuicIntegerFixed_def varintBytes_def length_bigEndian split: if_splits)

lemma i_buildPacket_loop:
  assumes enc: "i_packetNumberEncoding b = Some enc"
    and ok: "i_buildPacket k b = Inr r"
  shows "\<exists>e' b1. i_paddingLoop (kMaxPacketNumEncodingSize k - pnLength enc + sizeof_Sample k)
               (of_nat (length (i_iobuf b) - i_bodyStart b)) 0 b = Inr (e', b1)"
proof (cases "i_paddingLoop (kMaxPacketNumEncodingSize k - pnLength enc + sizeof_Sample k)
               (of_nat (length (i_iobuf b) - i_bodyStart b)) 0 b")
  case (Inl e)
  with ok show ?thesis unfolding i_buildPacket_def by (simp add: enc Let_def)
next
  case (Inr p)
  then show ?thesis by (cases p) simp
qed

lemma i_buildPacket_plain:
  assumes enc: "i_packetNumberEncoding b = Some enc"
    and ok: "i_buildPacket k b = Inr (pkt, hdr, body)"
    and lp: "i_paddingLoop (kMaxPacketNumEncodingSize k - pnLength enc + sizeof_Sample k)
               (of_nat (length (i_iobuf b) - i_bodyStart b)) 0 b = Inr (e', b1)"
    and h: "\<not> longNonRetry (i_header b)"
  shows "hdr = take (i_bodyStart b1) (i_iobuf b1) \<and> body = drop (i_bodyStart b1) (i_iobuf b1)"
  using ok h unfolding i_buildPacket_def longNonRetry_def
  by (auto simp add: enc lp Let_def split: if_splits)

lemma i_buildPacket_long:
  assumes enc: "i_packetNumberEncoding b = Some enc"
    and ok: "i_buildPacket k b = Inr (pkt, hdr, body)"
    and lp: "i_paddingLoop (kMaxPacketNumEncodingSize k - pnLength enc + sizeof_Sample k)
               (of_nat (length (i_iobuf b) - i_bodyStart b)) 0 b = Inr (e', b1)"
    and h: "longNonRetry (i_header b)"
  shows "\<exists>pktLen buf1 buf2.
           encodeQuicIntegerFixed
             (pnLength enc + of_nat (length (i_iobuf b) - i_bodyStart b)
                + ucast (i_cipherOverhead b1)) kMaxPacketLenSize = Inr pktLen
         \<and> backFill pktLen (i_packetLenOffset b1) (i_iobuf b1) = Inr buf1
         \<and> unat (pnLength enc) \<le> 8
         \<and> backFill (bigEndian (unat (pnLength enc)) (pnResult enc))
               (i_packetNumOffset b1) buf1 = Inr buf2
         \<and> hdr = take (i_bodyStart b1) buf2 \<and> body = drop (i_bodyStart b1) buf2"
  using ok h unfolding i_buildPacket_def longNonRetry_def
  by (auto simp add: enc lp Let_def split: if_splits sum.splits)


lemma i_buildPacket_body:
  assumes enc: "i_packetNumberEncoding b = Some enc"
    and wf: "i_wellFormed b"
    and ok: "i_buildPacket k b = Inr (pkt, hdr, body)"
  shows "\<exists>e' b1. i_paddingLoop (kMaxPacketNumEncodingSize k - pnLength enc + sizeof_Sample k)
               (of_nat (length (i_iobuf b) - i_bodyStart b)) 0 b = Inr (e', b1)
           \<and> body = drop (i_bodyStart b) (i_iobuf b1)"
proof -
  from i_buildPacket_loop [OF enc ok]
  obtain e' b1 where lp: "i_paddingLoop (kMaxPacketNumEncodingSize k - pnLength enc + sizeof_Sample k)
               (of_nat (length (i_iobuf b) - i_bodyStart b)) 0 b = Inr (e', b1)"
    by blast
  note P = i_paddingLoop_props [OF lp]
  have s: "i_bodyStart b1 = i_bodyStart b" using P by simp
  have "body = drop (i_bodyStart b) (i_iobuf b1)"
  proof (cases "longNonRetry (i_header b)")
    case False
    from i_buildPacket_plain [OF enc ok lp False] show ?thesis by (simp add: s)
  next
    case True
    from i_buildPacket_long [OF enc ok lp True] obtain pktLen buf1 buf2 where
      e: "encodeQuicIntegerFixed
             (pnLength enc + of_nat (length (i_iobuf b) - i_bodyStart b)
                + ucast (i_cipherOverhead b1)) kMaxPacketLenSize = Inr pktLen" and
      f1: "backFill pktLen (i_packetLenOffset b1) (i_iobuf b1) = Inr buf1" and
      f2: "backFill (bigEndian (unat (pnLength enc)) (pnResult enc))
               (i_packetNumOffset b1) buf1 = Inr buf2" and
      body: "body = drop (i_bodyStart b1) buf2"
      by blast
    from wf True enc have o: "i_packetNumOffset b = i_packetLenOffset b + kMaxPacketLenSize"
      "i_packetNumOffset b + unat (pnLength enc) \<le> i_bodyStart b"
      by (auto simp: i_wellFormed_def longNonRetry_def split: option.splits)
    have l: "length pktLen = kMaxPacketLenSize" by (rule encodeQuicIntegerFixed_length [OF e])
    have "drop (i_bodyStart b) buf2 = drop (i_bodyStart b) buf1"
      using o P by (intro backFill_props(3) [OF f2]) (simp add: length_bigEndian)
    also have "\<dots> = drop (i_bodyStart b) (i_iobuf b1)"
      using o P l by (intro backFill_props(3) [OF f1]) simp
    finally show ?thesis by (simp add: body s)
  qed
  with lp show ?thesis by blast
qed

lemma i_buildPacket_padding:
  assumes enc: "i_packetNumberEncoding b = Some enc"
    and pn: "unat (pnLength enc) \<le> unat (kMaxPacketNumEncodingSize k)"
    and ks: "unat (kMaxPacketNumEncodingSize k) + unat (sizeof_Sample k) < 2 ^ 32"
    and len: "length (i_iobuf b) < 2 ^ 32"
    and wf: "i_wellFormed b"
    and ok: "i_buildPacket k b = Inr (pkt, hdr, body)"
  shows "body = drop (i_bodyStart b) (i_iobuf b) @ replicate
      (if i_frames b \<noteq> []
       then min (unat (kMaxPacketNumEncodingSize k) - unat (pnLength enc) + unat (sizeof_Sample k)
                   - (length (drop (i_bodyStart b) (i_iobuf b)) + unat (i_cipherOverhead b)))
                (unat (i_remainingBytes b) - kMaxPacketLenSize)
       else 0) 0"
    and "i_written b
      + (if i_frames b \<noteq> []
         then min (unat (kMaxPacketNumEncodingSize k) - unat (pnLength enc)
                     + unat (sizeof_Sample k)
                     - (length (drop (i_bodyStart b) (i_iobuf b)) + unat (i_cipherOverhead b)))
                  (unat (i_remainingBytes b) - kMaxPacketLenSize)
         else 0) \<le> max (i_written b) (i_most b)"
proof -
  define m where "m = kMaxPacketNumEncodingSize k - pnLength enc + sizeof_Sample k"
  define M where "M = unat (kMaxPacketNumEncodingSize k) - unat (pnLength enc)
      + unat (sizeof_Sample k)"
  define L where "L = length (i_iobuf b) - i_bodyStart b"
  have Lb: "L < 2 ^ 32" using len unfolding L_def by linarith
  have bs: "i_bodyStart b \<le> length (i_iobuf b)" using wf by (simp add: i_wellFormed_def)
  have um: "unat m = M" unfolding m_def M_def by (rule minBody_unat [OF pn ks])
  from i_buildPacket_body [OF enc wf ok] obtain e' b1 where
    lp: "i_paddingLoop m (of_nat L) 0 b = Inr (e', b1)"
    and body: "body = drop (i_bodyStart b) (i_iobuf b1)"
    unfolding m_def L_def by blast
  note P = i_paddingLoop_props [OF lp]
  from P have ex: "\<not> (of_nat L + e' + ucast (i_cipherOverhead b) < m \<and> i_frames b \<noteq> []
            \<and> i_remainingBytes b1 > 4)"
    by blast
  from P have "\<exists>n. i_iobuf b1 = i_iobuf b @ replicate n 0 \<and> e' = 0 + of_nat n
            \<and> unat (i_remainingBytes b1) + n = unat (i_remainingBytes b)
            \<and> i_written b1 = i_written b + n \<and> i_written b1 \<le> max (i_written b) (i_most b)
            \<and> (0 < n \<longrightarrow> of_nat L + (e' - 1) + ucast (i_cipherOverhead b) < m
                  \<and> i_frames b \<noteq> [] \<and> 4 \<le> unat (i_remainingBytes b1))"
    by blast
  then obtain n where n0: "i_iobuf b1 = i_iobuf b @ replicate n 0 \<and> e' = 0 + of_nat n
            \<and> unat (i_remainingBytes b1) + n = unat (i_remainingBytes b)
            \<and> i_written b1 = i_written b + n \<and> i_written b1 \<le> max (i_written b) (i_most b)
            \<and> (0 < n \<longrightarrow> of_nat L + (e' - 1) + ucast (i_cipherOverhead b) < m
                  \<and> i_frames b \<noteq> [] \<and> 4 \<le> unat (i_remainingBytes b1))"
    by blast
  then have
    n: "i_iobuf b1 = i_iobuf b @ replicate n 0" "e' = of_nat n"
      "unat (i_remainingBytes b1) + n = unat (i_remainingBytes b)"
      "0 < n \<longrightarrow> of_nat L + (e' - 1) + ucast (i_cipherOverhead b) < m \<and> i_frames b \<noteq> []
          \<and> 4 \<le> unat (i_remainingBytes b1)"
      "i_written b1 = i_written b + n" "i_written b1 \<le> max (i_written b) (i_most b)"
    by auto
  have nb: "n < 2 ^ 32"
  proof -
    have "unat (i_remainingBytes b) < 2 ^ 32" using unsigned_less [of "i_remainingBytes b"] by simp
    with n(3) show ?thesis by linarith
  qed
  have bd: "body = drop (i_bodyStart b) (i_iobuf b) @ replicate n 0"
    using bs by (simp add: body n(1))
  have up: "M \<le> L + n + unat (i_cipherOverhead b) \<or> unat (i_remainingBytes b1) \<le> 4"
    if "i_frames b \<noteq> []"
  proof (cases "i_remainingBytes b1 > 4")
    case True
    with ex that have "\<not> of_nat L + of_nat n + ucast (i_cipherOverhead b) < m"
      by (simp add: n(2))
    then show ?thesis
      by (simp add: word_less_nat_alt size_sum_unat [OF Lb nb] um)
  next
    case False
    then show ?thesis by (simp add: word_less_nat_alt)
  qed
  have lo: "L + n + unat (i_cipherOverhead b) \<le> M \<and> 4 \<le> unat (i_remainingBytes b1)"
    if pos: "0 < n"
  proof -
    obtain n' where n': "n = Suc n'" using pos by (cases n) auto
    have e1: "e' - 1 = of_nat n'" by (simp add: n(2) n')
    have "n' < 2 ^ 32" using nb n' by simp
    from n(4) pos have "of_nat L + of_nat n' + ucast (i_cipherOverhead b) < m"
      by (simp add: e1)
    then have "L + n' + unat (i_cipherOverhead b) < M"
      by (simp add: word_less_nat_alt size_sum_unat [OF Lb \<open>n' < 2 ^ 32\<close>] um)
    with n(4) pos show ?thesis by (simp add: n')
  qed
  have cnt: "n = (if i_frames b \<noteq> []
       then min (M - (L + unat (i_cipherOverhead b))) (unat (i_remainingBytes b) - 4) else 0)"
  proof (cases "i_frames b = []")
    case True
    with n(4) have "n = 0" by auto
    with True show ?thesis by simp
  next
    case False
    from padding_count [OF n(3) lo up [OF False]] False show ?thesis by simp
  qed
  show "body = drop (i_bodyStart b) (i_iobuf b) @ replicate
      (if i_frames b \<noteq> []
       then min (unat (kMaxPacketNumEncodingSize k) - unat (pnLength enc) + unat (sizeof_Sample k)
                   - (length (drop (i_bodyStart b) (i_iobuf b)) + unat (i_cipherOverhead b)))
                (unat (i_remainingBytes b) - kMaxPacketLenSize)
       else 0) 0"
    using bd cnt by (simp add: M_def L_def kMaxPacketLenSize_def)
  show "i_written b
      + (if i_frames b \<noteq> []
         then min (unat (kMaxPacketNumEncodingSize k) - unat (pnLength enc)
                     + unat (sizeof_Sample k)
                     - (length (drop (i_bodyStart b) (i_iobuf b)) + unat (i_cipherOverhead b)))
                  (unat (i_remainingBytes b) - kMaxPacketLenSize)
         else 0) \<le> max (i_written b) (i_most b)"
  proof -
    from n(5,6) have "i_written b + n \<le> max (i_written b) (i_most b)" by simp
    then show ?thesis
      unfolding cnt M_def L_def kMaxPacketLenSize_def length_drop by simp
  qed
qed
lemma InplaceQuicPacketBuilder_new_wellFormed:
  assumes "InplaceQuicPacketBuilder_new k iobuf remainingBytes header la = Inr b"
  shows "i_wellFormed b"
proof (cases header)
  case (LongPacketHeader l)
  with assms show ?thesis
    unfolding InplaceQuicPacketBuilder_new_def
    by (auto simp: Let_def i_wellFormed_def asLong_def bufWriter_push_def bufWriter_append_def
        split: sum.splits prod.splits if_splits)
next
  case (ShortPacketHeader s n)
  with assms show ?thesis
    unfolding InplaceQuicPacketBuilder_new_def
    by (auto simp: Let_def i_wellFormed_def asLong_def bufWriter_push_def
        split: sum.splits prod.splits option.splits if_splits)
qed

lemma i_wellFormed_writes:
  assumes "i_wellFormed b"
  shows "i_push data b = Inr b1 \<Longrightarrow> i_wellFormed b1"
    and "i_wellFormed (i_appendFrame frame b)"
    and "i_wellFormed (i_setCipherOverhead overhead b)"
  using assms
  by (auto simp: i_wellFormed_def i_push_def bufWriter_push_def i_appendFrame_def
      i_setCipherOverhead_def split: option.splits if_splits)
lemma packetLength_encodable:
  fixes p :: "64 word" and ov :: byte
  assumes "unat p \<le> 8" "L < 2 ^ 33"
  shows "p + of_nat L + ucast ov \<le> 0x3FFFFFFFFFFFFFFF"
proof -
  have o: "unat ov < 2 ^ 8" using unsigned_less [of ov] by simp
  have 1: "unat (of_nat L :: 64 word) = L" using assms(2) by (simp add: unat_of_nat)
  have "unat (ucast ov :: 64 word) = take_bit 64 (unat ov)" by (simp only: unsigned_ucast_eq) simp
  then have 3: "unat (ucast ov :: 64 word) = unat ov" using o by (simp add: take_bit_eq_mod)
  have "unat (p + of_nat L + ucast ov) = (unat p + L + unat ov) mod 2 ^ 64"
    by (simp only: unat_word_ariths 1 3 mod_add_left_eq) simp
  also have "\<dots> = unat p + L + unat ov" using assms o by simp
  finally have "unat (p + of_nat L + ucast ov) \<le> 8 + 2 ^ 33 + 2 ^ 8"
    using assms o by simp
  then show ?thesis by (simp add: word_le_nat_alt)
qed

lemma encodeQuicInteger_succeeds:
  "v \<le> 0x3FFFFFFFFFFFFFFF \<Longrightarrow> \<exists>bs. encodeQuicInteger v = Inr bs"
  by (simp add: encodeQuicInteger_def QuicInteger_getSize_def)

text \<open>
  The growable-buffer builder always builds a packet once the constructor has encoded
  the packet number in at most 8 bytes and the body is shorter than \<open>2^32\<close> bytes.
\<close>

lemma r_buildPacket_succeeds:
  assumes enc: "r_packetNumberEncoding b = Some enc"
    and pn: "unat (pnLength enc) \<le> 8"
    and len: "length (r_bodyBuf b) < 2 ^ 32"
  shows "\<exists>r. r_buildPacket k b = Inr r"
proof -
  obtain e' b1 where lp: "r_paddingLoop
            (kMaxPacketNumEncodingSize k - pnLength enc + sizeof_Sample k)
            (of_nat (length (r_bodyBuf b))) 0 b = (e', b1)"
    by (cases "r_paddingLoop
            (kMaxPacketNumEncodingSize k - pnLength enc + sizeof_Sample k)
            (of_nat (length (r_bodyBuf b))) 0 b") blast
  from r_paddingLoop_props [OF lp] obtain n where
    n: "r_bodyBuf b1 = r_bodyBuf b @ replicate n 0"
       "unat (r_remainingBytes b1) + n = unat (r_remainingBytes b)"
    by auto
  have "unat (r_remainingBytes b) < 2 ^ 32" using unsigned_less [of "r_remainingBytes b"] by simp
  with n(2) have "n < 2 ^ 32" by linarith
  with len have "length (r_bodyBuf b1) < 2 ^ 33" by (simp add: n(1))
  from packetLength_encodable [OF pn this]
  obtain bs where bs: "encodeQuicInteger
      (pnLength enc + of_nat (length (r_bodyBuf b1)) + ucast (r_cipherOverhead b1)) = Inr bs"
    using encodeQuicInteger_succeeds by blast
  have "unat (ucast (pnLength enc) :: byte) \<le> 8"
  proof -
    have "unat (ucast (pnLength enc) :: byte) = take_bit 8 (unat (pnLength enc))"
      by (simp only: unsigned_ucast_eq) simp
    also have "\<dots> \<le> unat (pnLength enc)" by (rule take_bit_nat_less_eq_self)
    finally show ?thesis using pn by simp
  qed
  then show ?thesis
    unfolding r_buildPacket_def
    by (simp add: enc lp Let_def bs r_appendBytesHeader_def appendBytesImage_def
        split: option.splits)
qed


lemma packetLength_fits_four_bytes:
  fixes p :: "64 word" and ov :: byte
  assumes "unat p \<le> 8" "L < 2 ^ 29"
  shows "p + of_nat L + ucast ov \<le> 0x3FFFFFFF"
proof -
  have o: "unat ov < 2 ^ 8" using unsigned_less [of ov] by simp
  have 1: "unat (of_nat L :: 64 word) = L" using assms(2) by (simp add: unat_of_nat)
  have "unat (ucast ov :: 64 word) = take_bit 64 (unat ov)" by (simp only: unsigned_ucast_eq) simp
  then have 3: "unat (ucast ov :: 64 word) = unat ov" using o by (simp add: take_bit_eq_mod)
  have "unat (p + of_nat L + ucast ov) = (unat p + L + unat ov) mod 2 ^ 64"
    by (simp only: unat_word_ariths 1 3 mod_add_left_eq) simp
  also have "\<dots> = unat p + L + unat ov" using assms o by simp
  finally have "unat (p + of_nat L + ucast ov) \<le> 8 + 2 ^ 29 + 2 ^ 8"
    using assms o by simp
  then show ?thesis by (simp add: word_le_nat_alt)
qed

lemma backFill_succeeds:
  "off + length data \<le> length buf \<Longrightarrow> \<exists>buf'. backFill data off buf = Inr buf'"
  by (simp add: backFill_def)

lemma i_paddingLoop_succeeds:
  "i_written b + unat (i_remainingBytes b) \<le> i_most b + kMaxPacketLenSize
     \<Longrightarrow> \<exists>r. i_paddingLoop m l e b = Inr r"
proof (induction m l e b rule: i_paddingLoop.induct)
  case (1 m l e b)
  show ?case
  proof (cases "l + e + ucast (i_cipherOverhead b) < m
         \<and> i_frames b \<noteq> [] \<and> i_remainingBytes b > of_nat kMaxPacketLenSize")
    case True
    then have r4: "i_remainingBytes b > 4" by (simp add: kMaxPacketLenSize_def)
    then have "4 < unat (i_remainingBytes b)" by (simp add: word_less_nat_alt)
    with "1.prems" have room: "i_written b + 1 \<le> i_most b"
      by (simp add: kMaxPacketLenSize_def)
    define b1 where "b1 = b\<lparr>i_iobuf := i_iobuf b @ [FrameType_PADDING],
        i_written := i_written b + 1, i_remainingBytes := i_remainingBytes b - 1\<rparr>"
    have w: "i_writePadding b = Inr b1"
      using room by (simp add: i_writePadding_def bufWriter_push_def b1_def)
    have "i_written b1 + unat (i_remainingBytes b1) \<le> i_most b1 + kMaxPacketLenSize"
      using "1.prems" remaining_pred [OF r4] by (simp add: b1_def)
    from "1.IH" [OF True w this] show ?thesis
      by (subst i_paddingLoop.simps) (simp add: True w)
  next
    case False
    then show ?thesis by (subst i_paddingLoop.simps) auto
  qed
qed

text \<open>
  The in-place builder always builds a packet from a state its constructor and write
  operations produce, once the packet number is encoded in at most 8 bytes, the buffer
  is shorter than \<open>2^29\<close> bytes (so that the packet length fits the 4-byte field), and
  the limit of the writer leaves room for the space the builder counts as remaining but
  for \<open>kMaxPacketLenSize\<close> bytes.
\<close>

lemma i_buildPacket_succeeds:
  assumes enc: "i_packetNumberEncoding b = Some enc"
    and pn: "unat (pnLength enc) \<le> 8"
    and wf: "i_wellFormed b"
    and len: "length (i_iobuf b) < 2 ^ 29"
    and room: "i_written b + unat (i_remainingBytes b) \<le> i_most b + kMaxPacketLenSize"
  shows "\<exists>r. i_buildPacket k b = Inr r"
proof -
  define L where "L = length (i_iobuf b) - i_bodyStart b"
  from i_paddingLoop_succeeds [OF room]
  obtain r where "i_paddingLoop (kMaxPacketNumEncodingSize k - pnLength enc + sizeof_Sample k)
               (of_nat L) 0 b = Inr r"
    by blast
  then obtain e' b1 where lp: "i_paddingLoop (kMaxPacketNumEncodingSize k - pnLength enc + sizeof_Sample k)
               (of_nat L) 0 b = Inr (e', b1)"
    by (cases r) simp
  from i_paddingLoop_props [OF lp] obtain n where
    n: "i_iobuf b1 = i_iobuf b @ replicate n 0" and
    s: "i_bodyStart b1 = i_bodyStart b" "i_packetLenOffset b1 = i_packetLenOffset b"
       "i_packetNumOffset b1 = i_packetNumOffset b"
    by auto
  have bs: "i_bodyStart b \<le> length (i_iobuf b)" using wf by (simp add: i_wellFormed_def)
  then have bs1: "i_bodyStart b1 \<le> length (i_iobuf b1)" by (simp add: s n)
  show ?thesis
  proof (cases "longNonRetry (i_header b)")
    case False
    then show ?thesis
      unfolding i_buildPacket_def longNonRetry_def
      using bs1 by (simp add: enc lp [unfolded L_def] Let_def)
  next
    case True
    from wf True enc have o: "i_packetNumOffset b = i_packetLenOffset b + kMaxPacketLenSize"
      "i_packetNumOffset b + unat (pnLength enc) \<le> i_bodyStart b"
      by (auto simp: i_wellFormed_def longNonRetry_def split: option.splits)
    have "L < 2 ^ 29" using len unfolding L_def by linarith
    from packetLength_fits_four_bytes [OF pn this]
    have v: "pnLength enc + of_nat L + ucast (i_cipherOverhead b1) \<le> 0x3FFFFFFF" .
    define pktLen where "pktLen = varintBytes kMaxPacketLenSize
        (pnLength enc + of_nat L + ucast (i_cipherOverhead b1))"
    have e: "encodeQuicIntegerFixed (pnLength enc + of_nat L + ucast (i_cipherOverhead b1))
        kMaxPacketLenSize = Inr pktLen"
      using v by (simp add: encodeQuicIntegerFixed_def kMaxPacketLenSize_def pktLen_def)
    have l: "length pktLen = kMaxPacketLenSize" by (rule encodeQuicIntegerFixed_length [OF e])
    have "i_packetLenOffset b1 + length pktLen \<le> length (i_iobuf b1)"
      using o bs by (simp add: s n l)
    from backFill_succeeds [OF this] obtain buf1 where
      f1: "backFill pktLen (i_packetLenOffset b1) (i_iobuf b1) = Inr buf1" by blast
    have l1: "length buf1 = length (i_iobuf b1)" by (rule backFill_props(1) [OF f1])
    have "i_packetNumOffset b1 + length (bigEndian (unat (pnLength enc)) (pnResult enc))
        \<le> length buf1"
      using o bs by (simp add: s n l1 length_bigEndian)
    from backFill_succeeds [OF this] obtain buf2 where
      f2: "backFill (bigEndian (unat (pnLength enc)) (pnResult enc))
             (i_packetNumOffset b1) buf1 = Inr buf2" by blast
    have l2: "length buf2 = length buf1" by (rule backFill_props(1) [OF f2])
    from True show ?thesis
      unfolding i_buildPacket_def longNonRetry_def
      using bs1 pn by (simp add: enc lp [unfolded L_def] Let_def e [unfolded L_def] f1 f2 l1 l2)
  qed
qed


text \<open>
  Where the limit of the writer is reached first, the in-place builder builds no packet:
  a Handshake packet in a budget of 30 bytes has 22 bytes written after a frame of one
  byte, while the builder still counts 29 bytes as remaining; the padding stops at the
  limit of the writer.
\<close>

lemma i_buildPacket_writer_limit:
  "i_setCipherOverhead 0 (i_appendFrame () (projr (i_push [1]
        (projr (InplaceQuicPacketBuilder_new quicConstants [] 30 exampleHandshakeHeader 0)))))
     = \<lparr>i_iobuf = [224, 250, 206, 176, 1, 8, 1, 2, 3, 4, 5, 6, 7, 8, 1, 9, 0, 0, 0, 0, 0, 1],
        i_written = 22, i_most = 30, i_remainingBytes = 29,
        i_header = exampleHandshakeHeader, i_frames = [()],
        i_packetNumberEncoding = Some \<lparr>pnResult = 1, pnLength = 1\<rparr>, i_cipherOverhead = 0,
        i_packetLenOffset = 16, i_packetNumOffset = 20, i_bodyStart = 21\<rparr>
   \<and> i_buildPacket quicConstants
       \<lparr>i_iobuf = [224, 250, 206, 176, 1, 8, 1, 2, 3, 4, 5, 6, 7, 8, 1, 9, 0, 0, 0, 0, 0, 1],
        i_written = 22, i_most = 30, i_remainingBytes = 29,
        i_header = exampleHandshakeHeader, i_frames = [()],
        i_packetNumberEncoding = Some \<lparr>pnResult = 1, pnLength = 1\<rparr>, i_cipherOverhead = 0,
        i_packetLenOffset = 16, i_packetNumOffset = 20, i_bodyStart = 21\<rparr>
     = Inl CheckFailed"
  by code_simp
text \<open>
  C5, as the code has it. For every packet built by either builder variant: \<open>buildPacket\<close>
  appends one-byte padding frames while \<open>bodyLength + extraPadding + cipherOverhead\<close> is
  below \<open>kMaxPacketNumEncodingSize - packetNumberLength + sampleSize\<close>, the packet holds at
  least one frame and more than \<open>kMaxPacketLenSize\<close> bytes of space remain. So the body of
  the built packet is the body written so far followed by padding bytes only, and their
  number is exactly \<open>paddingLength\<close>: none for a packet without frames; otherwise what
  the body plus cipher overhead lacks to the bound, cut off where the remaining space is
  down to \<open>kMaxPacketLenSize\<close> bytes. So a shortfall is made up in full when the packet
  holds a frame and that space covers it, and otherwise only in part or not at all. (The
  in-place builder builds no packet when the padding would pass the limit of its writer.)
\<close>

theorem buildPacket_padding:
  assumes "unat (pnLength enc) \<le> unat (kMaxPacketNumEncodingSize k)"
    and "unat (kMaxPacketNumEncodingSize k) + unat (sizeof_Sample k) < 2 ^ 32"
  shows "(r_packetNumberEncoding rb = Some enc \<and> length (r_bodyBuf rb) < 2 ^ 32
            \<and> r_buildPacket k rb = Inr (rpkt, rhdr, rbody) \<longrightarrow>
          paddingOutcome (minBodySizeBound k enc) (r_frames rb \<noteq> [])
            (unat (r_remainingBytes rb)) (unat (r_cipherOverhead rb)) (r_bodyBuf rb) rbody)
       \<and> (i_packetNumberEncoding ib = Some enc \<and> length (i_iobuf ib) < 2 ^ 32
            \<and> i_wellFormed ib \<and> i_buildPacket k ib = Inr (ipkt, ihdr, ibody) \<longrightarrow>
          paddingOutcome (minBodySizeBound k enc) (i_frames ib \<noteq> [])
            (unat (i_remainingBytes ib)) (unat (i_cipherOverhead ib))
            (drop (i_bodyStart ib) (i_iobuf ib)) ibody)"
proof (intro conjI impI)
  assume a: "r_packetNumberEncoding rb = Some enc \<and> length (r_bodyBuf rb) < 2 ^ 32
            \<and> r_buildPacket k rb = Inr (rpkt, rhdr, rbody)"
  then have "r_packetNumberEncoding rb = Some enc" "length (r_bodyBuf rb) < 2 ^ 32"
    "r_buildPacket k rb = Inr (rpkt, rhdr, rbody)" by simp_all
  from r_buildPacket_padding [OF this(1) assms this(2,3)]
  show "paddingOutcome (minBodySizeBound k enc) (r_frames rb \<noteq> [])
            (unat (r_remainingBytes rb)) (unat (r_cipherOverhead rb)) (r_bodyBuf rb) rbody"
    unfolding paddingOutcome_def paddingLength_def minBodySizeBound_def by simp
next
  assume a: "i_packetNumberEncoding ib = Some enc \<and> length (i_iobuf ib) < 2 ^ 32
            \<and> i_wellFormed ib \<and> i_buildPacket k ib = Inr (ipkt, ihdr, ibody)"
  then have "i_packetNumberEncoding ib = Some enc" "length (i_iobuf ib) < 2 ^ 32"
    "i_wellFormed ib" "i_buildPacket k ib = Inr (ipkt, ihdr, ibody)" by simp_all
  from i_buildPacket_padding(1) [OF this(1) assms this(2,3,4)]
  show "paddingOutcome (minBodySizeBound k enc) (i_frames ib \<noteq> [])
            (unat (i_remainingBytes ib)) (unat (i_cipherOverhead ib))
            (drop (i_bodyStart ib) (i_iobuf ib)) ibody"
    unfolding paddingOutcome_def paddingLength_def minBodySizeBound_def by simp
qed

theorem buildPacket_padding_witness:
  "paddingOutcome 19 True 1189 0 [1] (1 # replicate 18 0)
   \<and> paddingOutcome 19 True 1199 16 [1] [1, 0, 0]"
proof -
  let ?enc = "\<lparr>pnResult = 1, pnLength = 1\<rparr>"
  let ?rb = "\<lparr>r_remainingBytes = 1189, r_header = exampleShortHeader, r_frames = [()],
              r_headerBuf = [64, 1, 2, 3, 4, 5, 6, 7, 8, 1], r_bodyBuf = [1],
              r_packetNumberEncoding = Some ?enc, r_cipherOverhead = 0\<rparr>"
  let ?ib = "\<lparr>i_iobuf = [224, 250, 206, 176, 1, 8, 1, 2, 3, 4, 5, 6, 7, 8, 1, 9,
                         0, 0, 0, 0, 0, 1],
              i_written = 22, i_most = 1200,
              i_remainingBytes = 1199, i_header = exampleHandshakeHeader, i_frames = [()],
              i_packetNumberEncoding = Some ?enc, i_cipherOverhead = 16,
              i_packetLenOffset = 16, i_packetNumOffset = 20, i_bodyStart = 21\<rparr>"
  have r_new: "r_appendFrame () (r_push [1]
        (projr (RegularQuicPacketBuilder_new quicConstants 1200 exampleShortHeader 0))) = ?rb"
    by code_simp
  have i_new: "i_setCipherOverhead 16 (i_appendFrame () (projr (i_push [1]
        (projr (InplaceQuicPacketBuilder_new quicConstants [] 1200 exampleHandshakeHeader 0)))))
      = ?ib"
    by code_simp
  have a1: "unat (pnLength ?enc) \<le> unat (kMaxPacketNumEncodingSize quicConstants)"
    by (simp add: quicConstants_def)
  have a2: "unat (kMaxPacketNumEncodingSize quicConstants) + unat (sizeof_Sample quicConstants)
      < 2 ^ 32"
    by (simp add: quicConstants_def)
  have r: "r_buildPacket quicConstants ?rb
      = Inr ((exampleShortHeader, [()]), [64, 1, 2, 3, 4, 5, 6, 7, 8, 1], 1 # replicate 18 0)"
    by code_simp
  have i: "i_buildPacket quicConstants ?ib
      = Inr ((exampleHandshakeHeader, [()]),
             [224, 250, 206, 176, 1, 8, 1, 2, 3, 4, 5, 6, 7, 8, 1, 9, 128, 0, 0, 18, 1],
             [1, 0, 0])"
    by code_simp
  have wf: "i_wellFormed ?ib"
    by (simp add: i_wellFormed_def exampleHandshakeHeader_def asLong_def kMaxPacketLenSize_def)
  have m: "minBodySizeBound quicConstants ?enc = 19"
    by (simp add: minBodySizeBound_def quicConstants_def)
  from buildPacket_padding [OF a1 a2, of ?rb _ _ _ ?ib] r i wf
  show ?thesis
    unfolding m by simp
qed

text \<open>
  C5 as stated fails where the guards of the loop stop the padding: a 1-RTT packet built
  in a budget of 15 bytes holds a frame of one byte, and after that byte only
  \<open>kMaxPacketLenSize\<close> bytes of space remain; \<open>buildPacket\<close> appends no padding, and the
  body of 1 byte stays below the bound of 19.
\<close>

theorem buildPacket_padding_counterexample:
  "r_appendFrame () (r_push [1]
       (projr (RegularQuicPacketBuilder_new quicConstants 15 exampleShortHeader 0)))
     = \<lparr>r_remainingBytes = 4, r_header = exampleShortHeader, r_frames = [()],
        r_headerBuf = [64, 1, 2, 3, 4, 5, 6, 7, 8, 1], r_bodyBuf = [1],
        r_packetNumberEncoding = Some \<lparr>pnResult = 1, pnLength = 1\<rparr>,
        r_cipherOverhead = 0\<rparr>
   \<and> r_buildPacket quicConstants
       \<lparr>r_remainingBytes = 4, r_header = exampleShortHeader, r_frames = [()],
        r_headerBuf = [64, 1, 2, 3, 4, 5, 6, 7, 8, 1], r_bodyBuf = [1],
        r_packetNumberEncoding = Some \<lparr>pnResult = 1, pnLength = 1\<rparr>,
        r_cipherOverhead = 0\<rparr>
     = Inr ((exampleShortHeader, [()]), [64, 1, 2, 3, 4, 5, 6, 7, 8, 1], [1])
   \<and> length [1 :: byte] + unat (0 :: byte)
       < minBodySizeBound quicConstants \<lparr>pnResult = 1, pnLength = 1\<rparr>"
proof -
  have "minBodySizeBound quicConstants \<lparr>pnResult = 1, pnLength = 1\<rparr> = 19"
    by (simp add: minBodySizeBound_def quicConstants_def)
  moreover have "r_appendFrame () (r_push [1]
       (projr (RegularQuicPacketBuilder_new quicConstants 15 exampleShortHeader 0)))
     = \<lparr>r_remainingBytes = 4, r_header = exampleShortHeader, r_frames = [()],
        r_headerBuf = [64, 1, 2, 3, 4, 5, 6, 7, 8, 1], r_bodyBuf = [1],
        r_packetNumberEncoding = Some \<lparr>pnResult = 1, pnLength = 1\<rparr>,
        r_cipherOverhead = 0\<rparr>"
    by code_simp
  moreover have "r_buildPacket quicConstants
       \<lparr>r_remainingBytes = 4, r_header = exampleShortHeader, r_frames = [()],
        r_headerBuf = [64, 1, 2, 3, 4, 5, 6, 7, 8, 1], r_bodyBuf = [1],
        r_packetNumberEncoding = Some \<lparr>pnResult = 1, pnLength = 1\<rparr>,
        r_cipherOverhead = 0\<rparr>
     = Inr ((exampleShortHeader, [()]), [64, 1, 2, 3, 4, 5, 6, 7, 8, 1], [1])"
    by code_simp
  ultimately show ?thesis by simp
qed

lemma encodeQuicInteger_length:
  "encodeQuicInteger v = Inr field \<Longrightarrow> QuicInteger_getSize v = Inr (length field)"
  by (auto simp: encodeQuicInteger_def varintBytes_def length_bigEndian split: sum.splits)

lemma r_buildPacket_header:
  assumes enc: "r_packetNumberEncoding b = Some enc"
    and h: "longNonRetry (r_header b)"
    and ok: "r_buildPacket k b = Inr (pkt, hdr, body)"
  shows "\<exists>field. encodeQuicInteger
             (pnLength enc + of_nat (length body) + ucast (r_cipherOverhead b)) = Inr field
         \<and> hdr = r_headerBuf b @ field
                   @ bigEndian (unat (ucast (pnLength enc) :: byte)) (pnResult enc)"
proof -
  obtain e' b1 where lp: "r_paddingLoop
            (kMaxPacketNumEncodingSize k - pnLength enc + sizeof_Sample k)
            (of_nat (length (r_bodyBuf b))) 0 b = (e', b1)"
    by (cases "r_paddingLoop
            (kMaxPacketNumEncodingSize k - pnLength enc + sizeof_Sample k)
            (of_nat (length (r_bodyBuf b))) 0 b") blast
  note P = r_paddingLoop_props [OF lp]
  have c: "r_cipherOverhead b1 = r_cipherOverhead b" "r_headerBuf b1 = r_headerBuf b"
    using P by simp_all
  from ok h show ?thesis
    unfolding r_buildPacket_def longNonRetry_def
    by (auto simp add: enc lp Let_def r_appendBytesHeader_def appendBytesImage_def c
        split: sum.splits if_splits)
qed

lemma i_buildPacket_header:
  assumes enc: "i_packetNumberEncoding b = Some enc"
    and h: "longNonRetry (i_header b)"
    and wf: "i_wellFormed b"
    and ok: "i_buildPacket k b = Inr (pkt, hdr, body)"
  shows "pnLength enc + of_nat (length (i_iobuf b) - i_bodyStart b)
            + ucast (i_cipherOverhead b) \<le> 0x3FFFFFFF
       \<and> take kMaxPacketLenSize (drop (i_packetLenOffset b) hdr)
           = varintBytes kMaxPacketLenSize
               (pnLength enc + of_nat (length (i_iobuf b) - i_bodyStart b)
                  + ucast (i_cipherOverhead b))
       \<and> take (unat (pnLength enc)) (drop (i_packetLenOffset b + kMaxPacketLenSize) hdr)
           = bigEndian (unat (pnLength enc)) (pnResult enc)"
proof -
  define v where "v = pnLength enc + of_nat (length (i_iobuf b) - i_bodyStart b)
            + ucast (i_cipherOverhead b)"
  from i_buildPacket_loop [OF enc ok]
  obtain e' b1 where lp: "i_paddingLoop (kMaxPacketNumEncodingSize k - pnLength enc + sizeof_Sample k)
               (of_nat (length (i_iobuf b) - i_bodyStart b)) 0 b = Inr (e', b1)"
    by blast
  note P = i_paddingLoop_props [OF lp]
  have s: "i_bodyStart b1 = i_bodyStart b" "i_cipherOverhead b1 = i_cipherOverhead b"
    "i_packetLenOffset b1 = i_packetLenOffset b" "i_packetNumOffset b1 = i_packetNumOffset b"
    using P by simp_all
  from i_buildPacket_long [OF enc ok lp h] obtain pktLen buf1 buf2 where
    e: "encodeQuicIntegerFixed v kMaxPacketLenSize = Inr pktLen" and
    f1: "backFill pktLen (i_packetLenOffset b) (i_iobuf b1) = Inr buf1" and
    f2: "backFill (bigEndian (unat (pnLength enc)) (pnResult enc))
               (i_packetNumOffset b) buf1 = Inr buf2" and
    hdr: "hdr = take (i_bodyStart b) buf2"
    unfolding s v_def by blast
  from wf h enc have o: "i_packetNumOffset b = i_packetLenOffset b + kMaxPacketLenSize"
    "i_packetNumOffset b + unat (pnLength enc) \<le> i_bodyStart b"
    by (auto simp: i_wellFormed_def longNonRetry_def split: option.splits)
  from e have vb: "v \<le> 0x3FFFFFFF" and pl: "pktLen = varintBytes kMaxPacketLenSize v"
    by (auto simp: encodeQuicIntegerFixed_def kMaxPacketLenSize_def split: if_splits)
  have l: "length pktLen = kMaxPacketLenSize" by (rule encodeQuicIntegerFixed_length [OF e])
  have t1: "take kMaxPacketLenSize (drop (i_packetLenOffset b) buf1) = pktLen"
    using backFill_props(2) [OF f1] by (simp add: l)
  have "take (i_packetNumOffset b) buf2 = take (i_packetNumOffset b) buf1"
    by (rule backFill_props(4) [OF f2]) simp
  then have "drop (i_packetLenOffset b) (take (i_packetNumOffset b) buf2)
      = drop (i_packetLenOffset b) (take (i_packetNumOffset b) buf1)" by simp
  then have t2: "take kMaxPacketLenSize (drop (i_packetLenOffset b) buf2)
      = take kMaxPacketLenSize (drop (i_packetLenOffset b) buf1)"
    by (simp add: drop_take o(1))
  have t3: "take (unat (pnLength enc)) (drop (i_packetNumOffset b) buf2)
      = bigEndian (unat (pnLength enc)) (pnResult enc)"
    using backFill_props(2) [OF f2] by (simp add: length_bigEndian)
  have h1: "take kMaxPacketLenSize (drop (i_packetLenOffset b) hdr)
      = take kMaxPacketLenSize (drop (i_packetLenOffset b) buf2)"
    using o unfolding hdr by (simp add: drop_take min_def)
  have h2: "take (unat (pnLength enc)) (drop (i_packetNumOffset b) hdr)
      = take (unat (pnLength enc)) (drop (i_packetNumOffset b) buf2)"
    using o unfolding hdr by (simp add: drop_take min_def)
  show ?thesis
    using vb h1 t2 t1 pl h2 t3 unfolding v_def [symmetric] o(1) [symmetric] by simp
qed

text \<open>
  C3, as the code has it. For every packet built with a long header whose type is not
  Retry: the in-place builder back-patches the packet-length field, at the offset it
  reserved, as a fixed-width varint of exactly \<open>kMaxPacketLenSize\<close> (4) bytes, followed by
  the packet number; the growable-buffer builder appends the packet length to the header
  as a shortest-form varint (1, 2, 4 or 8 bytes, as its value requires), followed by the
  packet number.
\<close>

theorem packetLength_field:
  "(r_packetNumberEncoding rb = Some enc \<and> longNonRetry (r_header rb)
      \<and> r_buildPacket k rb = Inr (rpkt, rhdr, rbody) \<longrightarrow>
    (\<exists>field.
       encodeQuicInteger (pnLength enc + of_nat (length rbody) + ucast (r_cipherOverhead rb))
         = Inr field
       \<and> QuicInteger_getSize (pnLength enc + of_nat (length rbody) + ucast (r_cipherOverhead rb))
         = Inr (length field)
       \<and> rhdr = r_headerBuf rb @ field
                  @ bigEndian (unat (ucast (pnLength enc) :: byte)) (pnResult enc)))
   \<and> (i_packetNumberEncoding ib = Some enc \<and> longNonRetry (i_header ib) \<and> i_wellFormed ib
      \<and> i_buildPacket k ib = Inr (ipkt, ihdr, ibody) \<longrightarrow>
    pnLength enc + of_nat (length (i_iobuf ib) - i_bodyStart ib) + ucast (i_cipherOverhead ib)
      \<le> 0x3FFFFFFF
    \<and> take kMaxPacketLenSize (drop (i_packetLenOffset ib) ihdr)
        = varintBytes kMaxPacketLenSize
            (pnLength enc + of_nat (length (i_iobuf ib) - i_bodyStart ib)
               + ucast (i_cipherOverhead ib))
    \<and> length (varintBytes kMaxPacketLenSize
            (pnLength enc + of_nat (length (i_iobuf ib) - i_bodyStart ib)
               + ucast (i_cipherOverhead ib))) = 4
    \<and> take (unat (pnLength enc)) (drop (i_packetLenOffset ib + kMaxPacketLenSize) ihdr)
        = bigEndian (unat (pnLength enc)) (pnResult enc))"
proof (rule conjI; rule impI)
  assume a: "r_packetNumberEncoding rb = Some enc \<and> longNonRetry (r_header rb)
      \<and> r_buildPacket k rb = Inr (rpkt, rhdr, rbody)"
  then obtain field where
    f: "encodeQuicInteger (pnLength enc + of_nat (length rbody) + ucast (r_cipherOverhead rb))
         = Inr field"
       "rhdr = r_headerBuf rb @ field
                  @ bigEndian (unat (ucast (pnLength enc) :: byte)) (pnResult enc)"
    using r_buildPacket_header [of rb enc k rpkt rhdr rbody] by blast
  with encodeQuicInteger_length [OF f(1)]
  show "\<exists>field.
       encodeQuicInteger (pnLength enc + of_nat (length rbody) + ucast (r_cipherOverhead rb))
         = Inr field
       \<and> QuicInteger_getSize (pnLength enc + of_nat (length rbody) + ucast (r_cipherOverhead rb))
         = Inr (length field)
       \<and> rhdr = r_headerBuf rb @ field
                  @ bigEndian (unat (ucast (pnLength enc) :: byte)) (pnResult enc)"
    by blast
next
  assume a: "i_packetNumberEncoding ib = Some enc \<and> longNonRetry (i_header ib) \<and> i_wellFormed ib
      \<and> i_buildPacket k ib = Inr (ipkt, ihdr, ibody)"
  then have "i_packetNumberEncoding ib = Some enc" "longNonRetry (i_header ib)" "i_wellFormed ib"
    "i_buildPacket k ib = Inr (ipkt, ihdr, ibody)" by simp_all
  from i_buildPacket_header [OF this]
  show "pnLength enc + of_nat (length (i_iobuf ib) - i_bodyStart ib) + ucast (i_cipherOverhead ib)
      \<le> 0x3FFFFFFF
    \<and> take kMaxPacketLenSize (drop (i_packetLenOffset ib) ihdr)
        = varintBytes kMaxPacketLenSize
            (pnLength enc + of_nat (length (i_iobuf ib) - i_bodyStart ib)
               + ucast (i_cipherOverhead ib))
    \<and> length (varintBytes kMaxPacketLenSize
            (pnLength enc + of_nat (length (i_iobuf ib) - i_bodyStart ib)
               + ucast (i_cipherOverhead ib))) = 4
    \<and> take (unat (pnLength enc)) (drop (i_packetLenOffset ib + kMaxPacketLenSize) ihdr)
        = bigEndian (unat (pnLength enc)) (pnResult enc)"
    by (simp add: varintBytes_def length_bigEndian kMaxPacketLenSize_def)
qed

theorem packetLength_field_witness:
  "[224, 250, 206, 176, 1, 8, 1, 2, 3, 4, 5, 6, 7, 8, 1, 9, 20, 1]
     = [224, 250, 206, 176, 1, 8, 1, 2, 3, 4, 5, 6, 7, 8, 1, 9] @ [20 :: byte] @ [1]
   \<and> take 4 (drop 16 [224, 250, 206, 176, 1, 8, 1, 2, 3, 4, 5, 6, 7, 8, 1, 9, 128, 0, 0, 18, 1])
     = [128, 0, 0, 18 :: byte]"
proof -
  let ?enc = "\<lparr>pnResult = 1, pnLength = 1\<rparr>"
  let ?rb = "\<lparr>r_remainingBytes = 1178, r_header = exampleHandshakeHeader, r_frames = [()],
              r_headerBuf = [224, 250, 206, 176, 1, 8, 1, 2, 3, 4, 5, 6, 7, 8, 1, 9],
              r_bodyBuf = [1], r_packetNumberEncoding = Some ?enc, r_cipherOverhead = 16\<rparr>"
  let ?ib = "\<lparr>i_iobuf = [224, 250, 206, 176, 1, 8, 1, 2, 3, 4, 5, 6, 7, 8, 1, 9,
                         0, 0, 0, 0, 0, 1],
              i_written = 22, i_most = 1200,
              i_remainingBytes = 1199, i_header = exampleHandshakeHeader, i_frames = [()],
              i_packetNumberEncoding = Some ?enc, i_cipherOverhead = 16,
              i_packetLenOffset = 16, i_packetNumOffset = 20, i_bodyStart = 21\<rparr>"
  have r: "r_buildPacket quicConstants ?rb
      = Inr ((exampleHandshakeHeader, [()]),
             [224, 250, 206, 176, 1, 8, 1, 2, 3, 4, 5, 6, 7, 8, 1, 9, 20, 1], [1, 0, 0])"
    by code_simp
  have i: "i_buildPacket quicConstants ?ib
      = Inr ((exampleHandshakeHeader, [()]),
             [224, 250, 206, 176, 1, 8, 1, 2, 3, 4, 5, 6, 7, 8, 1, 9, 128, 0, 0, 18, 1],
             [1, 0, 0])"
    by code_simp
  have l: "longNonRetry exampleHandshakeHeader"
    by (simp add: longNonRetry_def exampleHandshakeHeader_def asLong_def)
  have wf: "i_wellFormed ?ib"
    by (simp add: i_wellFormed_def exampleHandshakeHeader_def asLong_def kMaxPacketLenSize_def)
  have e: "encodeQuicInteger (20 :: 64 word) = Inr [20]"
    by code_simp
  have v: "varintBytes 4 (18 :: 64 word) = [128, 0, 0, 18]"
    by code_simp
  from packetLength_field [of ?rb ?enc quicConstants _ _ _ ?ib] r i l wf e v
  show ?thesis
    by (simp add: kMaxPacketLenSize_def)
qed

text \<open>
  C3 as stated fails for the growable-buffer builder: a Handshake packet with a body of
  3 bytes and a cipher overhead of 16 has the packet length 20, which the builder writes as
  the single byte \<open>0x14\<close>; the header is 2 bytes longer than the bytes the constructor
  wrote, not 5, and the field decodes as a one-byte variable-length integer.
\<close>

theorem packetLength_field_regular_counterexample:
  "r_setCipherOverhead 16 (r_appendFrame () (r_push [1]
       (projr (RegularQuicPacketBuilder_new quicConstants 1200 exampleHandshakeHeader 0))))
     = \<lparr>r_remainingBytes = 1178, r_header = exampleHandshakeHeader, r_frames = [()],
        r_headerBuf = [224, 250, 206, 176, 1, 8, 1, 2, 3, 4, 5, 6, 7, 8, 1, 9],
        r_bodyBuf = [1], r_packetNumberEncoding = Some \<lparr>pnResult = 1, pnLength = 1\<rparr>,
        r_cipherOverhead = 16\<rparr>
   \<and> r_buildPacket quicConstants
       \<lparr>r_remainingBytes = 1178, r_header = exampleHandshakeHeader, r_frames = [()],
        r_headerBuf = [224, 250, 206, 176, 1, 8, 1, 2, 3, 4, 5, 6, 7, 8, 1, 9],
        r_bodyBuf = [1], r_packetNumberEncoding = Some \<lparr>pnResult = 1, pnLength = 1\<rparr>,
        r_cipherOverhead = 16\<rparr>
     = Inr ((exampleHandshakeHeader, [()]),
            [224, 250, 206, 176, 1, 8, 1, 2, 3, 4, 5, 6, 7, 8, 1, 9] @ [20] @ [1], [1, 0, 0])
   \<and> decodeQuicInteger ([20] @ [1]) = Some ((20, 1), [1])
   \<and> length [20 :: byte] \<noteq> kMaxPacketLenSize"
proof -
  have "r_setCipherOverhead 16 (r_appendFrame () (r_push [1]
       (projr (RegularQuicPacketBuilder_new quicConstants 1200 exampleHandshakeHeader 0))))
     = \<lparr>r_remainingBytes = 1178, r_header = exampleHandshakeHeader, r_frames = [()],
        r_headerBuf = [224, 250, 206, 176, 1, 8, 1, 2, 3, 4, 5, 6, 7, 8, 1, 9],
        r_bodyBuf = [1], r_packetNumberEncoding = Some \<lparr>pnResult = 1, pnLength = 1\<rparr>,
        r_cipherOverhead = 16\<rparr>"
    by code_simp
  moreover have "r_buildPacket quicConstants
       \<lparr>r_remainingBytes = 1178, r_header = exampleHandshakeHeader, r_frames = [()],
        r_headerBuf = [224, 250, 206, 176, 1, 8, 1, 2, 3, 4, 5, 6, 7, 8, 1, 9],
        r_bodyBuf = [1], r_packetNumberEncoding = Some \<lparr>pnResult = 1, pnLength = 1\<rparr>,
        r_cipherOverhead = 16\<rparr>
     = Inr ((exampleHandshakeHeader, [()]),
            [224, 250, 206, 176, 1, 8, 1, 2, 3, 4, 5, 6, 7, 8, 1, 9] @ [20] @ [1], [1, 0, 0])"
    by code_simp
  moreover have "decodeQuicInteger ([20] @ [1]) = Some ((20, 1), [1])"
    by code_simp
  ultimately show ?thesis by (simp add: kMaxPacketLenSize_def)
qed

section \<open>Takeover: the envelope round trip\<close>

lemma bigEndian_Suc:
  "bigEndian (Suc n) v = ucast (drop_bit (8 * n) v) # bigEndian n v"
proof -
  have "[0..<Suc n] = 0 # map Suc [0..<n]"
    by (simp add: upt_conv_Cons map_Suc_upt del: upt_Suc)
  then show ?thesis
    by (simp add: bigEndian_def comp_def del: upt_Suc)
qed

lemma byte_step:
  "push_bit (8 * n) (ucast (ucast (drop_bit (8 * n) v) :: byte) :: 64 word) OR take_bit (8 * n) v
     = take_bit (8 * Suc n) (v :: 64 word)"
  by (rule bit_eqI) (auto simp: bit_simps)

lemma foldl_bigEndian:
  "foldl (\<lambda>acc b. push_bit 8 acc OR ucast b) acc (bigEndian n v)
     = push_bit (8 * n) acc OR take_bit (8 * n) (v :: 64 word)"
proof (induction n arbitrary: acc)
  case 0
  then show ?case by (simp add: bigEndian_def)
next
  case (Suc n)
  have "foldl (\<lambda>acc b. push_bit 8 acc OR ucast b) acc (bigEndian (Suc n) v)
      = push_bit (8 * n) (push_bit 8 acc OR ucast (ucast (drop_bit (8 * n) v) :: byte))
          OR take_bit (8 * n) v"
    by (simp only: bigEndian_Suc foldl_Cons Suc.IH)
  also have "\<dots> = push_bit (8 * Suc n) acc
      OR (push_bit (8 * n) (ucast (ucast (drop_bit (8 * n) v) :: byte)) OR take_bit (8 * n) v)"
    by (simp add: push_bit_or push_bit_push_bit or.assoc add.commute)
  also have "\<dots> = push_bit (8 * Suc n) acc OR take_bit (8 * Suc n) v"
    by (simp only: byte_step)
  finally show ?case .
qed

lemma beValue_bigEndian: "beValue (bigEndian n v) = take_bit (8 * n) v"
  by (simp add: beValue_def foldl_bigEndian)

lemma readBE_bigEndian:
  "readBE n (bigEndian n v @ rest) = Some (take_bit (8 * n) v, rest)"
  by (simp add: readBE_def length_bigEndian beValue_bigEndian)


lemma envelope_read:
  assumes "length peerAddress < 2 ^ 16"
  shows "readBE 4 (forwardPacketToAnotherServer peerAddress data t)
           = Some (1, bigEndian 2 (of_nat (length peerAddress)) @ peerAddress
                        @ bigEndian 8 t @ data)"
    and "readBE 2 (bigEndian 2 (of_nat (length peerAddress)) @ peerAddress @ bigEndian 8 t @ data)
           = Some (of_nat (length peerAddress), peerAddress @ bigEndian 8 t @ data)"
    and "unat (of_nat (length peerAddress) :: 64 word) = length peerAddress"
    and "readBE 8 (bigEndian 8 t @ data) = Some (t, data)"
proof -
  have "take_bit (8 * 4) (TakeoverProtocolVersion) = (1 :: 64 word)"
    by (simp add: TakeoverProtocolVersion_def)
  then show "readBE 4 (forwardPacketToAnotherServer peerAddress data t)
           = Some (1, bigEndian 2 (of_nat (length peerAddress)) @ peerAddress
                        @ bigEndian 8 t @ data)"
    unfolding forwardPacketToAnotherServer_def by (simp only: readBE_bigEndian)
  have "length peerAddress < 2 ^ 64" using assms by (rule less_trans) simp
  then show u: "unat (of_nat (length peerAddress) :: 64 word) = length peerAddress"
    by (simp add: unat_of_nat)
  have "take_bit (8 * 2) (of_nat (length peerAddress) :: 64 word) = of_nat (length peerAddress)"
    using assms by (simp add: take_bit_of_nat take_bit_nat_eq_self)
  then show "readBE 2 (bigEndian 2 (of_nat (length peerAddress)) @ peerAddress @ bigEndian 8 t @ data)
           = Some (of_nat (length peerAddress), peerAddress @ bigEndian 8 t @ data)"
    by (simp only: readBE_bigEndian)
  have "take_bit (8 * 8) t = t" by (rule take_bit_word_eq_self) simp
  then show "readBE 8 (bigEndian 8 t @ data) = Some (t, data)"
    by (simp only: readBE_bigEndian)
qed

text \<open>
  C7. Forwarding a datagram during takeover wraps it in an envelope that begins with a
  32-bit version equal to 1, then a 16-bit peer-address length and the peer sockaddr bytes
  (a socket address being shorter than \<open>2^16\<close> bytes), then a 64-bit receive epoch, then
  the unmodified original datagram bytes; the takeover reader strips this envelope and
  recovers exactly the original datagram bytes, the receive time and the original peer
  address, marking the data as forwarded. The envelope also passes the checks of the test
  \<open>testPacketForwarding\<close>.
\<close>

theorem takeover_envelope_roundtrip:
  assumes "length peerAddress < 2 ^ 16"
  shows "forwardPacketToAnotherServer peerAddress data t
           = [0, 0, 0, 1] @ bigEndian 2 (of_nat (length peerAddress)) @ peerAddress
               @ bigEndian 8 t @ data
       \<and> processForwardedPacket (forwardPacketToAnotherServer peerAddress data t)
           = Some (peerAddress, \<lparr>packet = data, receiveTimePoint = t\<rparr>, True)
       \<and> (t < now \<longrightarrow>
            testPacketForwardingChecks data peerAddress now
              (forwardPacketToAnotherServer peerAddress data t))"
proof -
  note R = envelope_read [OF assms]
  have v: "bigEndian 4 TakeoverProtocolVersion = [0, 0, 0, 1]"
    by (simp add: bigEndian_def TakeoverProtocolVersion_def upt_rec)
  have 1: "forwardPacketToAnotherServer peerAddress data t
           = [0, 0, 0, 1] @ bigEndian 2 (of_nat (length peerAddress)) @ peerAddress
               @ bigEndian 8 t @ data"
    by (simp add: forwardPacketToAnotherServer_def v)
  have 2: "processForwardedPacket (forwardPacketToAnotherServer peerAddress data t)
           = Some (peerAddress, \<lparr>packet = data, receiveTimePoint = t\<rparr>, True)"
    unfolding processForwardedPacket_def by (simp add: R Let_def)
  have len: "length (forwardPacketToAnotherServer peerAddress data t)
      = 4 + 2 + length peerAddress + 8 + length data"
    by (simp add: forwardPacketToAnotherServer_def length_bigEndian)
  have ne: "data \<noteq> forwardPacketToAnotherServer peerAddress data t"
  proof
    assume "data = forwardPacketToAnotherServer peerAddress data t"
    then have "length data = length (forwardPacketToAnotherServer peerAddress data t)" by simp
    with len show False by simp
  qed
  have dr: "drop (4 + 2 + length peerAddress + 8) (forwardPacketToAnotherServer peerAddress data t)
      = data"
    by (simp add: forwardPacketToAnotherServer_def length_bigEndian)
  have 3: "testPacketForwardingChecks data peerAddress now
              (forwardPacketToAnotherServer peerAddress data t)" if "t < now"
    unfolding testPacketForwardingChecks_def using ne dr that by (simp add: R)
  from 1 2 3 show ?thesis by blast
qed


theorem takeover_envelope_roundtrip_witness:
  "forwardPacketToAnotherServer [2, 0, 0, 49, 1, 2, 3, 4] [0xE0, 7, 7] 1000
     = [0, 0, 0, 1, 0, 8, 2, 0, 0, 49, 1, 2, 3, 4, 0, 0, 0, 0, 0, 0, 3, 232, 0xE0, 7, 7]
   \<and> processForwardedPacket
       [0, 0, 0, 1, 0, 8, 2, 0, 0, 49, 1, 2, 3, 4, 0, 0, 0, 0, 0, 0, 3, 232, 0xE0, 7, 7]
     = Some ([2, 0, 0, 49, 1, 2, 3, 4], \<lparr>packet = [0xE0, 7, 7], receiveTimePoint = 1000\<rparr>, True)"
proof -
  have a: "length [2, 0, 0, 49, 1, 2, 3, 4 :: byte] < 2 ^ 16" by simp
  have b: "bigEndian 2 (of_nat (length [2, 0, 0, 49, 1, 2, 3, 4 :: byte])) = [0, 8]"
    by code_simp
  have c: "bigEndian 8 1000 = [0, 0, 0, 0, 0, 0, 3, 232]"
    by code_simp
  note T = takeover_envelope_roundtrip [OF a, of "[0xE0, 7, 7]" 1000 0]
  have e: "forwardPacketToAnotherServer [2, 0, 0, 49, 1, 2, 3, 4] [0xE0, 7, 7] 1000
     = [0, 0, 0, 1, 0, 8, 2, 0, 0, 49, 1, 2, 3, 4, 0, 0, 0, 0, 0, 0, 3, 232, 0xE0, 7, 7]"
    using T b c by simp
  have "processForwardedPacket
       (forwardPacketToAnotherServer [2, 0, 0, 49, 1, 2, 3, 4] [0xE0, 7, 7] 1000)
     = Some ([2, 0, 0, 49, 1, 2, 3, 4], \<lparr>packet = [0xE0, 7, 7], receiveTimePoint = 1000\<rparr>, True)"
    using T by blast
  then show ?thesis by (simp only: e)
qed

section \<open>Server worker: unbinding a connection\<close>

text \<open>
  C2, as the code has it. After \<open>onConnectionUnbound(transport, sourceIdentity, cids)\<close>
  returns, for every connection id c in cids, the worker's \<open>ConnIdMap\<close> contains no entry
  for c (c is in \<open>RejectedCidSet\<close>, and the source identity is gone from
  \<open>SrcToTransportMap\<close>), and \<open>rejectConnectionId(c)\<close> returns false, as the connection id
  is no longer in use.
\<close>

theorem onConnectionUnbound_cids:
  assumes "c \<in> fst ` set cids"
  shows "connectionIdMap (onConnectionUnbound transport sourceIdentity cids w) c = None
       \<and> \<not> rejectConnectionId (onConnectionUnbound transport sourceIdentity cids w) c
       \<and> c \<in> rejectedCidSet (onConnectionUnbound transport sourceIdentity cids w)
       \<and> sourceAddressMap (onConnectionUnbound transport sourceIdentity cids w) sourceIdentity
           = None
       \<and> transport \<notin> routed (onConnectionUnbound transport sourceIdentity cids w)"
  using assms by (simp add: onConnectionUnbound_def rejectConnectionId_def)

theorem onConnectionUnbound_cids_witness:
  "connectionIdMap
     (onConnectionUnbound (0 :: nat) (''client'', [0, 0, 0, 0, 0, 0, 0, 1])
        [([0, 0, 0, 0, 0, 0, 0, 1], 0), ([0, 0, 0, 0, 0, 0, 0, 0], 1)]
        (onConnectionIdAvailable 0 [0, 0, 0, 0, 0, 0, 0, 0]
           (onConnectionIdAvailable 0 [0, 0, 0, 0, 0, 0, 0, 1]
              (newWorker 0 ProcessZero))))
     [0, 0, 0, 0, 0, 0, 0, 0] = None"
proof -
  have "[0, 0, 0, 0, 0, 0, 0, 0 :: byte]
      \<in> fst ` set [([0, 0, 0, 0, 0, 0, 0, 1], 0 :: nat), ([0, 0, 0, 0, 0, 0, 0, 0], 1)]"
    by simp
  from onConnectionUnbound_cids [OF this, of "0 :: nat" "(''client'', [0, 0, 0, 0, 0, 0, 0, 1])"
      "onConnectionIdAvailable 0 [0, 0, 0, 0, 0, 0, 0, 0]
           (onConnectionIdAvailable 0 [0, 0, 0, 0, 0, 0, 0, 1]
              (newWorker 0 ProcessZero))"]
  show ?thesis by blast
qed

text \<open>
  C2 as stated fails in its second half. This is the test \<open>RejectCid\<close>: on a fresh worker
  \<open>rejectConnectionId\<close> is false; after \<open>onConnectionIdAvailable\<close> for the connection id it is
  true for that id and false for another; after \<open>onConnectionUnbound\<close> with the connection id
  it is false again, where the claim has it true.
\<close>

theorem rejectConnectionId_counterexample:
  "\<not> rejectConnectionId (newWorker 0 ProcessZero :: (string, nat) QuicServerWorker)
        [0, 0, 0, 0, 0, 0, 0, 0]
   \<and> rejectConnectionId
       (onConnectionIdAvailable (0 :: nat) [0, 0, 0, 0, 0, 0, 0, 0]
          (newWorker 0 ProcessZero :: (string, nat) QuicServerWorker))
       [0, 0, 0, 0, 0, 0, 0, 0]
   \<and> \<not> rejectConnectionId
       (onConnectionIdAvailable (0 :: nat) [0, 0, 0, 0, 0, 0, 0, 0]
          (newWorker 0 ProcessZero :: (string, nat) QuicServerWorker))
       [0, 0, 0, 0, 0, 0, 0, 1]
   \<and> [0, 0, 0, 0, 0, 0, 0, 0 :: byte] \<in> fst ` set [([0, 0, 0, 0, 0, 0, 0, 0], 0 :: nat)]
   \<and> \<not> rejectConnectionId
       (onConnectionUnbound (0 :: nat) (''::1'', [0, 0, 0, 0, 0, 0, 0, 0])
          [([0, 0, 0, 0, 0, 0, 0, 0], 0)]
          (onConnectionIdAvailable 0 [0, 0, 0, 0, 0, 0, 0, 0] (newWorker 0 ProcessZero)))
       [0, 0, 0, 0, 0, 0, 0, 0]"
  by (simp add: rejectConnectionId_def onConnectionUnbound_def onConnectionIdAvailable_def
      newWorker_def)

section \<open>Server worker: what is forwarded to the peer server\<close>




end
